theory Spec2Isabelle
  imports Complex_Main "HOL-Library.Multiset"
begin

section \<open>Python values shared by the models\<close>

text \<open>
  Exceptions of the Python code are values: every function that can raise returns a sum
  whose left injection carries the exception class.
\<close>

datatype py_error = TypeError | KeyError | ValueError | AttributeError | IndexError | RuntimeError

text \<open>
  Python slices \<^verbatim>\<open>xs[:n]\<close> and \<^verbatim>\<open>xs[n:]\<close> for an integer \<open>n\<close>: a negative bound
  counts from the end of the list, and a bound beyond either end is clamped.
\<close>

definition slice_to :: "int \<Rightarrow> 'a list \<Rightarrow> 'a list" where
  "slice_to n xs = (if 0 \<le> n then take (nat n) xs else take (nat (int (length xs) + n)) xs)"

definition slice_from :: "int \<Rightarrow> 'a list \<Rightarrow> 'a list" where
  "slice_from n xs = (if 0 \<le> n then drop (nat n) xs else drop (nat (int (length xs) + n)) xs)"

section \<open>The episodic batch samplers (\<^verbatim>\<open>data/utils/data_loader.py\<close>)\<close>

subsection \<open>Examples, datasets and the loader object\<close>

text \<open>
  An example is a dictionary with the keys \<^verbatim>\<open>'text'\<close> and \<^verbatim>\<open>'labels'\<close>. A dataset is a
  dictionary from class id to the list of the class's examples; it is an association list
  here, so that the order of \<^verbatim>\<open>dataset.keys()\<close> is kept.
\<close>

record example =
  ex_text :: string
  ex_labels :: int

type_synonym dataset = "(int \<times> example list) list"

text \<open>
  The fields of \<^verbatim>\<open>StratifiedLoader\<close>. The value stored under a class in \<^verbatim>\<open>self.data\<close> is
  a list or (after an assignment of \<^verbatim>\<open>None\<close>) Python's \<^verbatim>\<open>None\<close>: the inner option. The
  outer option of the map is the absence of the key. The field \<^verbatim>\<open>device\<close> only names the
  device the tensors are moved to and is left out.
\<close>

record 'tok stratified_loader =
  k :: int
  data :: "int \<rightharpoonup> example list option"
  labels :: "int list"
  tokenizer :: "(string list \<Rightarrow> py_error + 'tok) option"
  n_classes :: nat

text \<open>
  \<^verbatim>\<open>StratifiedLoader.__init__\<close>. \<^verbatim>\<open>random.shuffle\<close> permutes each class's list in place;
  the permutation drawn for a class is the argument \<open>rnd\<close>.
\<close>

definition stratified_init ::
  "(int \<Rightarrow> example list \<Rightarrow> example list) \<Rightarrow> dataset \<Rightarrow> int \<Rightarrow>
   (string list \<Rightarrow> py_error + 'tok) option \<Rightarrow> bool \<Rightarrow> 'tok stratified_loader" where
  "stratified_init rnd dataset k0 tok shuffle =
     \<lparr> k = k0,
       data = map_of (map (\<lambda>(c, xs). (c, Some (if shuffle then rnd c xs else xs))) dataset),
       labels = map fst dataset,
       tokenizer = tok,
       n_classes = length (map fst dataset) \<rparr>"

text \<open>The two \<^verbatim>\<open>defaultdict(list)\<close> of \<^verbatim>\<open>__next__\<close>, with the keys the code uses.\<close>

record batch =
  b_text :: "string list"
  b_labels :: "int list"

definition empty_batch :: batch where
  "empty_batch = \<lparr> b_text = [], b_labels = [] \<rparr>"

definition extend_batch :: "batch \<Rightarrow> example list \<Rightarrow> batch" where
  "extend_batch b xs =
     \<lparr> b_text = b_text b @ map ex_text xs, b_labels = b_labels b @ map ex_labels xs \<rparr>"

subsection \<open>\<^verbatim>\<open>StratifiedLoader.__next__\<close>\<close>

text \<open>
  One iteration of the loop over \<^verbatim>\<open>self.labels\<close> (lines 58 to 64). Subscripting \<^verbatim>\<open>None\<close>
  raises \<^verbatim>\<open>TypeError\<close>. \<^verbatim>\<open>list.extend\<close> returns \<^verbatim>\<open>None\<close>, and that is what line 59
  stores back under the class.
\<close>

definition next_class ::
  "int \<Rightarrow> (batch \<times> batch \<times> (int \<rightharpoonup> example list option)) \<Rightarrow> int \<Rightarrow>
   py_error + (batch \<times> batch \<times> (int \<rightharpoonup> example list option))" where
  "next_class k0 st c =
     (case st of (support_set, query_set, d) \<Rightarrow>
        (case d c of
           None \<Rightarrow> Inl KeyError
         | Some None \<Rightarrow> Inl TypeError
         | Some (Some xs) \<Rightarrow>
             (let samples = slice_to (2 * k0) xs
              in Inr (extend_batch support_set (slice_to k0 samples),
                      extend_batch query_set (slice_from k0 samples),
                      d(c \<mapsto> None)))))"

fun next_classes ::
  "int \<Rightarrow> (batch \<times> batch \<times> (int \<rightharpoonup> example list option)) \<Rightarrow> int list \<Rightarrow>
   py_error + (batch \<times> batch \<times> (int \<rightharpoonup> example list option))" where
  "next_classes k0 st [] = Inr st"
| "next_classes k0 st (c # cs) =
     (case next_class k0 st c of Inl e \<Rightarrow> Inl e | Inr st' \<Rightarrow> next_classes k0 st' cs)"

text \<open>
  \<^verbatim>\<open>torch.LongTensor(labels)\<close> holds the labels as 64-bit integers and raises (\<^verbatim>\<open>ValueError\<close>) on
  a label outside their range.
\<close>

definition long_tensor :: "int list \<Rightarrow> py_error + int list" where
  "long_tensor ls =
     (if list_all (\<lambda>l. - (2 ^ 63) \<le> l \<and> l < 2 ^ 63) ls then Inr ls else Inl ValueError)"

text \<open>
  \<^verbatim>\<open>_data_to_model_input(support_set, query_set, tokenizer, device)\<close>: the support text
  through the tokenizer, the support labels into a tensor, then the same for the query
  set; the first call that raises ends the function. The argument \<open>tok\<close> stands for the
  call \<^verbatim>\<open>tokenizer(text, return_tensors='pt', padding=True).to(device)\<close>, which is not code
  of this file and can raise.
\<close>

definition data_to_model_input ::
  "(string list \<Rightarrow> py_error + 'tok) \<Rightarrow> batch \<Rightarrow> batch \<Rightarrow>
   py_error + ((int list \<times> 'tok) \<times> (int list \<times> 'tok))" where
  "data_to_model_input tok support_set query_set =
     (case tok (b_text support_set) of
        Inl e \<Rightarrow> Inl e
      | Inr s_text \<Rightarrow>
         (case long_tensor (b_labels support_set) of
            Inl e \<Rightarrow> Inl e
          | Inr s_labels \<Rightarrow>
             (case tok (b_text query_set) of
                Inl e \<Rightarrow> Inl e
              | Inr q_text \<Rightarrow>
                 (case long_tensor (b_labels query_set) of
                    Inl e \<Rightarrow> Inl e
                  | Inr q_labels \<Rightarrow> Inr ((s_labels, s_text), (q_labels, q_text))))))"

text \<open>
  \<^verbatim>\<open>__next__\<close> returns the labels and the text of the support set and of the query set: as
  the lists the loop built when there is no tokenizer (the left injection of the text),
  and as \<^verbatim>\<open>_data_to_model_input\<close> returns them when there is one (the right injection). A
  raise loses the loader: the state it leaves behind is not returned.
\<close>

definition stratified_next ::
  "'tok stratified_loader \<Rightarrow>
   py_error + ((int list \<times> (string list + 'tok)) \<times> (int list \<times> (string list + 'tok)))
              \<times> 'tok stratified_loader" where
  "stratified_next ld =
     (case next_classes (k ld) (empty_batch, empty_batch, data ld) (labels ld) of
        Inl e \<Rightarrow> Inl e
      | Inr (support_set, query_set, d) \<Rightarrow>
         (case tokenizer ld of
            None \<Rightarrow>
              Inr (((b_labels support_set, Inl (b_text support_set)),
                    (b_labels query_set, Inl (b_text query_set))), ld\<lparr>data := d\<rparr>)
          | Some tok \<Rightarrow>
             (case data_to_model_input tok support_set query_set of
                Inl e \<Rightarrow> Inl e
              | Inr ((s_labels, s_text), (q_labels, q_text)) \<Rightarrow>
                  Inr (((s_labels, Inr s_text), (q_labels, Inr q_text)), ld\<lparr>data := d\<rparr>))))"

text \<open>
  Consecutive calls of \<^verbatim>\<open>__next__\<close> on one loader: the loader after \<open>n\<close> calls that all
  returned.
\<close>

fun stratified_calls ::
  "nat \<Rightarrow> 'tok stratified_loader \<Rightarrow> py_error + 'tok stratified_loader" where
  "stratified_calls 0 ld = Inr ld"
| "stratified_calls (Suc n) ld =
     (case stratified_next ld of Inl e \<Rightarrow> Inl e | Inr (r, ld') \<Rightarrow> stratified_calls n ld')"

subsection \<open>The number of classes of \<^verbatim>\<open>AdaptiveNKShotLoader.__next__\<close>\<close>

text \<open>
  \<^verbatim>\<open>numpy.random.randint(low, high)\<close> draws from the half-open interval from \<open>low\<close>
  (inclusive) to \<open>high\<close> (exclusive). The draw is modelled by the set of values it can
  return.
\<close>

definition np_random_randint :: "int \<Rightarrow> int \<Rightarrow> int set" where
  "np_random_randint low high = {low..<high}"

text \<open>
  Lines 111 to 114: the values \<^verbatim>\<open>self.n_classes\<close> can take, from the number of classes of
  the dataset and the flag \<^verbatim>\<open>subset_classes\<close>.
\<close>

definition adaptive_n_classes :: "'c list \<Rightarrow> bool \<Rightarrow> int set" where
  "adaptive_n_classes classes subset_classes =
     (if length classes \<le> 3 \<or> \<not> subset_classes then {int (length classes)}
      else np_random_randint 2 (int (length classes)))"

section \<open>The ProtoMAML model (\<^verbatim>\<open>models/protomaml_seqtransformer.py\<close>)\<close>

subsection \<open>Tensors, parameters and modules\<close>

text \<open>
  Tensor entries are real numbers: rounding, infinities and NaN of floating point are not
  modelled. A one-dimensional tensor is a list, a two-dimensional tensor the list of its
  rows. A tensor that autograd can differentiate carries its entries, the gradient stored
  in \<^verbatim>\<open>.grad\<close> (\<^verbatim>\<open>None\<close> or a tensor) and the flag \<^verbatim>\<open>requires_grad\<close>.
\<close>

type_synonym vec = "real list"
type_synonym matrix = "real list list"

record 'a tensor =
  p_data :: 'a
  p_grad :: "'a option"
  p_requires_grad :: bool

text \<open>
  A module (\<^verbatim>\<open>SeqTransformer\<close>) is the list \<^verbatim>\<open>parameters()\<close> enumerates, each parameter
  flattened to a vector, and the train/eval mode. \<^verbatim>\<open>deepcopy\<close> of a module is the same
  value: the copy shares no object with the original.
\<close>

record module =
  params :: "vec tensor list"
  training :: bool

text \<open>
  An attribute of the model object that the code deletes with \<^verbatim>\<open>del\<close>, sets to \<^verbatim>\<open>None\<close>
  or sets to a value.
\<close>

datatype 'a attr = Deleted | PyNone | Val 'a

record protomaml =
  model_shared :: module
  model_task :: "module attr"
  n_inner :: int
  n_outer :: int
  inner_lr :: real
  output_lr :: real
  task_name :: "string option"
  W_task :: "matrix tensor attr"
  b_task :: "vec tensor attr"
  clip_val :: real

text \<open>
  A scalar loss with its computation graph is represented by what \<^verbatim>\<open>torch.autograd.grad\<close>
  returns for the tensors the code differentiates it by: the classifier weight and bias,
  and the parameter at each position of \<^verbatim>\<open>model_task.parameters()\<close> and of
  \<^verbatim>\<open>model_shared.parameters()\<close> (\<open>None\<close> for a parameter the graph does not reach).
\<close>

record loss =
  wrt_W :: matrix
  wrt_b :: vec
  wrt_task :: "nat \<Rightarrow> vec option"
  wrt_shared :: "nat \<Rightarrow> vec option"

text \<open>
  What the model calls and this file does not define. The encoder's forward pass
  (\<^verbatim>\<open>SeqTransformer.forward\<close>, in \<^verbatim>\<open>models/seqtransformer.py\<close>) maps the parameter values,
  the mode and the input to one embedding per example. The loss function
  (\<^verbatim>\<open>config['lossfn']()\<close>) maps the logits and the labels to a loss, whose graph depends
  on the state the logits were computed in. \<^verbatim>\<open>Module.zero_grad\<close> sets the gradients to
  \<^verbatim>\<open>None\<close> or zeroes them in place, depending on the version of the library.
\<close>

record 'inp torch =
  encoder :: "vec list \<Rightarrow> bool \<Rightarrow> 'inp \<Rightarrow> py_error + matrix"
  lossfn :: "protomaml \<Rightarrow> 'inp \<Rightarrow> matrix \<Rightarrow> int list \<Rightarrow> py_error + loss"
  set_to_none :: bool

definition protomaml_init ::
  "module \<Rightarrow> int \<Rightarrow> int \<Rightarrow> real \<Rightarrow> real \<Rightarrow> real \<Rightarrow> protomaml" where
  "protomaml_init shared ni no ilr olr cv =
     \<lparr> model_shared = shared, model_task = PyNone, n_inner = ni, n_outer = no,
       inner_lr = ilr, output_lr = olr, task_name = None,
       W_task = PyNone, b_task = PyNone, clip_val = cv \<rparr>"

definition call_module :: "'inp torch \<Rightarrow> module \<Rightarrow> 'inp \<Rightarrow> py_error + matrix" where
  "call_module env m model_input = encoder env (map p_data (params m)) (training m) model_input"

definition get_updateable_parameters :: "module \<Rightarrow> vec tensor list" where
  "get_updateable_parameters model = filter p_requires_grad (params model)"

definition zero_grad :: "bool \<Rightarrow> module \<Rightarrow> module" where
  "zero_grad to_none m =
     m\<lparr>params := map (\<lambda>p. p\<lparr>p_grad :=
           (if to_none then None else map_option (map (\<lambda>x. 0)) (p_grad p))\<rparr>) (params m)\<rparr>"

subsection \<open>Tensor arithmetic\<close>

text \<open>Elementwise operations on tensors of one shape, and the operations of the library
  the model calls.\<close>

definition vadd :: "vec \<Rightarrow> vec \<Rightarrow> vec" where
  "vadd a b = map2 (+) a b"

definition vsub :: "vec \<Rightarrow> vec \<Rightarrow> vec" where
  "vsub a b = map2 (-) a b"

definition madd :: "matrix \<Rightarrow> matrix \<Rightarrow> matrix" where
  "madd A B = map2 vadd A B"

definition msub :: "matrix \<Rightarrow> matrix \<Rightarrow> matrix" where
  "msub A B = map2 vsub A B"

definition vscale :: "real \<Rightarrow> vec \<Rightarrow> vec" where
  "vscale c a = map (\<lambda>x. c * x) a"

definition vdiv :: "vec \<Rightarrow> real \<Rightarrow> vec" where
  "vdiv a c = map (\<lambda>x. x / c) a"

definition dot :: "vec \<Rightarrow> vec \<Rightarrow> real" where
  "dot a b = sum_list (map2 (*) a b)"

text \<open>
  \<^verbatim>\<open>F.linear(y, W, b)\<close> for \<open>y\<close> of shape \<open>[N, D]\<close>, \<open>W\<close> of shape \<open>[C, D]\<close> and \<open>b\<close> of
  shape \<open>[C]\<close>; shapes that do not fit raise \<^verbatim>\<open>RuntimeError\<close>.
\<close>

definition F_linear :: "matrix \<Rightarrow> matrix \<Rightarrow> vec \<Rightarrow> py_error + matrix" where
  "F_linear y W b =
     (if list_all (\<lambda>r. list_all (\<lambda>w. length r = length w) W) y \<and> length b = length W
      then Inr (map (\<lambda>r. map2 (\<lambda>w bi. dot r w + bi) W b) y)
      else Inl RuntimeError)"

text \<open>\<^verbatim>\<open>torch.unique\<close> of a one-dimensional tensor: its distinct values, sorted.\<close>

definition torch_unique :: "int list \<Rightarrow> int list" where
  "torch_unique lbls = sort (remdups lbls)"

text \<open>\<^verbatim>\<open>y[labels == i]\<close>: the rows of \<open>y\<close> at the positions where the label is \<open>i\<close>.\<close>

definition mask_rows :: "matrix \<Rightarrow> int list \<Rightarrow> int \<Rightarrow> matrix" where
  "mask_rows y lbls i = map snd (filter (\<lambda>(l, r). l = i) (zip lbls y))"

text \<open>\<^verbatim>\<open>torch.mean(rows, dim=0)\<close>: the rows added up, divided by their number.\<close>

definition mean_dim0 :: "matrix \<Rightarrow> vec" where
  "mean_dim0 rows =
     (case rows of [] \<Rightarrow> [] | r # rs \<Rightarrow> vdiv (foldl vadd r rs) (real (length rows)))"

text \<open>\<^verbatim>\<open>torch.norm(v, p=2)\<close> of a vector.\<close>

definition norm2 :: "vec \<Rightarrow> real" where
  "norm2 v = sqrt (sum_list (map (\<lambda>x. x * x) v))"

text \<open>
  \<^verbatim>\<open>torch.nn.utils.clip_grad_norm_(parameters, max_norm)\<close>: the gradients that are not
  \<^verbatim>\<open>None\<close> are multiplied in place by \<open>max_norm / (total_norm + 1e-6)\<close>, clamped to at
  most \<open>1\<close>, where \<open>total_norm\<close> is the 2-norm of all of them together. The function is
  applied to the trainable parameters of a module.
\<close>

definition grad_sq :: "vec tensor \<Rightarrow> real" where
  "grad_sq p =
     (if p_requires_grad p
      then (case p_grad p of None \<Rightarrow> 0 | Some g \<Rightarrow> sum_list (map (\<lambda>x. x * x) g))
      else 0)"

definition total_norm :: "vec tensor list \<Rightarrow> real" where
  "total_norm ps = sqrt (sum_list (map grad_sq ps))"

definition clip_coef :: "real \<Rightarrow> vec tensor list \<Rightarrow> real" where
  "clip_coef max_norm ps = min 1 (max_norm / (total_norm ps + 1 / 1000000))"

definition clip_grad_norm :: "real \<Rightarrow> vec tensor list \<Rightarrow> vec tensor list" where
  "clip_grad_norm max_norm ps =
     map (\<lambda>p. if p_requires_grad p
               then p\<lparr>p_grad := map_option (vscale (clip_coef max_norm ps)) (p_grad p)\<rparr>
               else p) ps"

text \<open>
  \<^verbatim>\<open>torch.autograd.grad(loss, trainable parameters of a module)\<close>: one gradient for each
  trainable parameter, in the order of \<^verbatim>\<open>parameters()\<close>; \<^verbatim>\<open>RuntimeError\<close> when the graph
  does not reach one of them.
\<close>

definition autograd_grad :: "(nat \<Rightarrow> vec option) \<Rightarrow> vec tensor list \<Rightarrow> py_error + vec list" where
  "autograd_grad wrt ps =
     (case those (map wrt (filter (\<lambda>i. p_requires_grad (ps ! i)) [0..<length ps])) of
        None \<Rightarrow> Inl RuntimeError
      | Some gs \<Rightarrow> Inr gs)"

text \<open>
  \<^verbatim>\<open>for param, g in zip(self._get_updateable_parameters(model), gs)\<close>: the trainable
  parameters are paired with the items of \<open>gs\<close> in order, and the body \<open>f\<close> writes to the
  paired parameter. The loop ends with the shorter of the two.
\<close>

fun zip_updateable ::
  "(vec tensor \<Rightarrow> 'g \<Rightarrow> vec tensor) \<Rightarrow> vec tensor list \<Rightarrow> 'g list \<Rightarrow> vec tensor list" where
  "zip_updateable f [] gs = []"
| "zip_updateable f (p # ps) gs =
     (if p_requires_grad p
      then (case gs of [] \<Rightarrow> p # ps | g # gs' \<Rightarrow> f p g # zip_updateable f ps gs')
      else p # zip_updateable f ps gs)"

subsection \<open>\<^verbatim>\<open>forward\<close>\<close>

text \<open>
  Reading a deleted attribute raises \<^verbatim>\<open>AttributeError\<close>; calling \<^verbatim>\<open>None\<close> raises
  \<^verbatim>\<open>TypeError\<close>. The test \<^verbatim>\<open>self.W_task == None or self.b_task == None\<close> reads
  \<^verbatim>\<open>self.b_task\<close> only when \<^verbatim>\<open>self.W_task\<close> is a tensor.
\<close>

definition forward :: "'inp torch \<Rightarrow> protomaml \<Rightarrow> 'inp \<Rightarrow> py_error + matrix" where
  "forward env s model_input =
     (case W_task s of
        Deleted \<Rightarrow> Inl AttributeError
      | PyNone \<Rightarrow> Inl ValueError
      | Val W \<Rightarrow>
         (case b_task s of
            Deleted \<Rightarrow> Inl AttributeError
          | PyNone \<Rightarrow> Inl ValueError
          | Val b \<Rightarrow>
             (case model_task s of
                Deleted \<Rightarrow> Inl AttributeError
              | PyNone \<Rightarrow> Inl TypeError
              | Val m \<Rightarrow>
                 (case call_module env m model_input of
                    Inl e \<Rightarrow> Inl e
                  | Inr y \<Rightarrow> F_linear y (p_data W) (p_data b)))))"

subsection \<open>\<^verbatim>\<open>_generate_protoypes\<close> and \<^verbatim>\<open>generate_clf_weights\<close>\<close>

text \<open>
  A boolean mask whose length is not the number of rows of \<open>y\<close> raises \<^verbatim>\<open>IndexError\<close>;
  \<^verbatim>\<open>torch.stack\<close> of an empty list raises \<^verbatim>\<open>RuntimeError\<close>.
\<close>

definition generate_protoypes ::
  "'inp torch \<Rightarrow> protomaml \<Rightarrow> int list \<Rightarrow> 'inp \<Rightarrow> py_error + matrix" where
  "generate_protoypes env s lbls model_input =
     (case call_module env (model_shared s) model_input of
        Inl e \<Rightarrow> Inl e
      | Inr y \<Rightarrow>
          if torch_unique lbls \<noteq> [] \<and> length lbls \<noteq> length y then Inl IndexError
          else (let prototypes = map (\<lambda>i. mean_dim0 (mask_rows y lbls i)) (torch_unique lbls)
                in if prototypes = [] then Inl RuntimeError else Inr prototypes))"

definition generate_clf_weights ::
  "'inp torch \<Rightarrow> protomaml \<Rightarrow> int list \<Rightarrow> 'inp \<Rightarrow> py_error + (matrix \<times> vec)" where
  "generate_clf_weights env s lbls model_input =
     (case generate_protoypes env s lbls model_input of
        Inl e \<Rightarrow> Inl e
      | Inr prototypes \<Rightarrow>
          (let W_init = map (vscale 2) prototypes;
               b_init = map (\<lambda>p. - norm2 p) prototypes
           in Inr (W_init, b_init)))"

subsection \<open>\<^verbatim>\<open>adapt\<close>\<close>

text \<open>
  \<^verbatim>\<open>adapt\<close> writes to the model object before it can raise, so a raise returns the
  exception together with the state it leaves behind.
\<close>

type_synonym adapt_result = "(py_error \<times> protomaml) + protomaml"

definition state_after :: "adapt_result \<Rightarrow> protomaml" where
  "state_after r = (case r of Inl (e, s) \<Rightarrow> s | Inr s \<Rightarrow> s)"

text \<open>
  \<^verbatim>\<open>del self.model_task, self.W_task, self.b_task\<close> deletes the three attributes in this
  order and raises \<^verbatim>\<open>AttributeError\<close> at the first one that does not exist.
\<close>

definition del_task :: "protomaml \<Rightarrow> adapt_result" where
  "del_task s =
     (if model_task s = Deleted then Inl (AttributeError, s)
      else if W_task s = Deleted then Inl (AttributeError, s\<lparr>model_task := Deleted\<rparr>)
      else if b_task s = Deleted
        then Inl (AttributeError, s\<lparr>model_task := Deleted, W_task := Deleted\<rparr>)
      else Inr (s\<lparr>model_task := Deleted, W_task := Deleted, b_task := Deleted\<rparr>))"

text \<open>
  One pass of the inner loop (lines 153 to 170): the forward pass, the loss, its gradients
  by the classifier tensors and the trainable parameters of the task model, the gradients
  stored in \<^verbatim>\<open>.grad\<close>, and the clipping of the task model's gradients. No parameter
  update follows: the optimizer steps are commented out in the source.
\<close>

definition inner_step :: "'inp torch \<Rightarrow> int list \<Rightarrow> 'inp \<Rightarrow> protomaml \<Rightarrow> adapt_result" where
  "inner_step env lbls model_input s =
     (case forward env s model_input of
        Inl e \<Rightarrow> Inl (e, s)
      | Inr logits \<Rightarrow>
         (case lossfn env s model_input logits lbls of
            Inl e \<Rightarrow> Inl (e, s)
          | Inr l \<Rightarrow>
             (case (W_task s, b_task s, model_task s) of
                (Val W, Val b, Val m) \<Rightarrow>
                  (case autograd_grad (wrt_task l) (params m) of
                     Inl e \<Rightarrow> Inl (e, s)
                   | Inr task_grads \<Rightarrow>
                       (let ps = zip_updateable (\<lambda>p g. p\<lparr>p_grad := Some g\<rparr>) (params m) task_grads;
                            ps' = (if clip_val s > 0 then clip_grad_norm (clip_val s) ps else ps)
                        in Inr (s\<lparr>W_task := Val (W\<lparr>p_grad := Some (wrt_W l)\<rparr>),
                                  b_task := Val (b\<lparr>p_grad := Some (wrt_b l)\<rparr>),
                                  model_task := Val (m\<lparr>params := ps'\<rparr>)\<rparr>)))
              | _ \<Rightarrow> Inl (AttributeError, s))))"

text \<open>\<^verbatim>\<open>for i in range(self.n_inner)\<close>, as the number of passes still to run.\<close>

fun inner_loop :: "'inp torch \<Rightarrow> int list \<Rightarrow> 'inp \<Rightarrow> nat \<Rightarrow> protomaml \<Rightarrow> adapt_result" where
  "inner_loop env lbls model_input 0 s = Inr s"
| "inner_loop env lbls model_input (Suc n) s =
     (case inner_step env lbls model_input s of
        Inl r \<Rightarrow> Inl r
      | Inr s' \<Rightarrow> inner_loop env lbls model_input n s')"

text \<open>
  Lines 185 and 186, \<^verbatim>\<open>self.W_task = W_init + (self.W_task - W_init).detach()\<close> and the
  same for the bias. The sum is a new tensor with no stored gradient; it requires a
  gradient when \<open>W_init\<close> does, that is, when a shared parameter does.
\<close>

definition straight_through ::
  "protomaml \<Rightarrow> matrix \<Rightarrow> vec \<Rightarrow> adapt_result" where
  "straight_through s W_init b_init =
     (case (W_task s, b_task s) of
        (Val W, Val b) \<Rightarrow>
          (let rg = list_ex p_requires_grad (params (model_shared s))
           in Inr (s\<lparr>W_task := Val \<lparr>p_data = madd W_init (msub (p_data W) W_init),
                                     p_grad = None, p_requires_grad = rg\<rparr>,
                     b_task := Val \<lparr>p_data = vadd b_init (vsub (p_data b) b_init),
                                     p_grad = None, p_requires_grad = rg\<rparr>\<rparr>))
      | _ \<Rightarrow> Inl (AttributeError, s))"

text \<open>
  Lines 132 to 147 of \<^verbatim>\<open>adapt\<close>: the task name, the deletion of the previous task
  attributes, the deep copy of the shared model with its gradients reset, and the
  classifier tensors detached from the prototype weights. The result is the state before
  the inner loop with \<open>W_init\<close> and \<open>b_init\<close>.
\<close>

definition adapt_setup ::
  "'inp torch \<Rightarrow> protomaml \<Rightarrow> int list \<Rightarrow> 'inp \<Rightarrow> string option \<Rightarrow>
   (py_error \<times> protomaml) + (protomaml \<times> matrix \<times> vec)" where
  "adapt_setup env s lbls model_input name =
     (case del_task (s\<lparr>task_name := name\<rparr>) of
        Inl r \<Rightarrow> Inl r
      | Inr s1 \<Rightarrow>
         (let s2 = s1\<lparr>model_task := Val (zero_grad (set_to_none env) (model_shared s1))\<rparr>
          in (case generate_clf_weights env s2 lbls model_input of
                Inl e \<Rightarrow> Inl (e, s2)
              | Inr (W_init, b_init) \<Rightarrow>
                  Inr (s2\<lparr>W_task := Val \<lparr>p_data = W_init, p_grad = None, p_requires_grad = True\<rparr>,
                          b_task := Val \<lparr>p_data = b_init, p_grad = None, p_requires_grad = True\<rparr>\<rparr>,
                       W_init, b_init))))"

text \<open>
  \<^verbatim>\<open>adapt(labels, model_input, task_name)\<close>. The flag \<^verbatim>\<open>verbose\<close> only prints and is
  left out.
\<close>

definition adapt ::
  "'inp torch \<Rightarrow> protomaml \<Rightarrow> int list \<Rightarrow> 'inp \<Rightarrow> string option \<Rightarrow> adapt_result" where
  "adapt env s lbls model_input name =
     (case adapt_setup env s lbls model_input name of
        Inl r \<Rightarrow> Inl r
      | Inr (s3, W_init, b_init) \<Rightarrow>
         (case inner_loop env lbls model_input (nat (n_inner s3)) s3 of
            Inl r \<Rightarrow> Inl r
          | Inr s4 \<Rightarrow> straight_through s4 W_init b_init))"

subsection \<open>\<^verbatim>\<open>backward\<close>\<close>

text \<open>
  Lines 204 to 208: the gradient buffer of a trainable shared parameter is set, when it
  is \<^verbatim>\<open>None\<close>, or incremented in place by \<open>(g_shared + g_task) / n_outer\<close>.
\<close>

definition accumulate :: "int \<Rightarrow> vec tensor \<Rightarrow> vec \<times> vec \<Rightarrow> vec tensor" where
  "accumulate no param g =
     (case g of (g_task, g_shared) \<Rightarrow>
        (case p_grad param of
           None \<Rightarrow> param\<lparr>p_grad := Some (vdiv (vadd g_shared g_task) (real_of_int no))\<rparr>
         | Some old \<Rightarrow>
             param\<lparr>p_grad := Some (vadd old (vdiv (vadd g_shared g_task) (real_of_int no)))\<rparr>))"

text \<open>
  \<^verbatim>\<open>backward(loss)\<close>. Every raise precedes the first write, so a raise leaves the state
  as it was.
\<close>

definition backward :: "protomaml \<Rightarrow> loss \<Rightarrow> py_error + protomaml" where
  "backward s l =
     (case model_task s of
        Val m \<Rightarrow>
          (case autograd_grad (wrt_task l) (params m) of
             Inl e \<Rightarrow> Inl e
           | Inr task_grads \<Rightarrow>
              (case autograd_grad (wrt_shared l) (params (model_shared s)) of
                 Inl e \<Rightarrow> Inl e
               | Inr shared_grads \<Rightarrow>
                   (let ps = zip_updateable (accumulate (n_outer s)) (params (model_shared s))
                               (zip task_grads shared_grads);
                        ps' = (if clip_val s > 0 then clip_grad_norm (clip_val s) ps else ps)
                    in Inr (s\<lparr>model_shared := (model_shared s)\<lparr>params := ps'\<rparr>\<rparr>))))
      | _ \<Rightarrow> Inl AttributeError)"

subsection \<open>Consecutive calls of \<^verbatim>\<open>backward\<close>\<close>

text \<open>
  The outer loop of the training script (lines 333 to 350 of \<^verbatim>\<open>ProtoMAML_train_restarts.py\<close>)
  calls \<^verbatim>\<open>backward\<close> once per outer step, with the loss of that step, before the
  optimizer step and \<^verbatim>\<open>zero_grad\<close>. The \<^verbatim>\<open>adapt\<close> between two calls replaces the task
  model by a fresh copy of the shared model, with the same \<^verbatim>\<open>requires_grad\<close> flags, and
  leaves the shared model as it is; the calls are chained on the state here.
\<close>

fun backward_calls :: "protomaml \<Rightarrow> loss list \<Rightarrow> py_error + protomaml" where
  "backward_calls s [] = Inr s"
| "backward_calls s (l # ls) =
     (case backward s l of Inl e \<Rightarrow> Inl e | Inr s' \<Rightarrow> backward_calls s' ls)"

section \<open>Auxiliary notions for the proofs\<close>

text \<open>
  The pool of a class is the list stored under it (empty when there is none); a class has a
  full window when its pool holds at least \<open>2k\<close> examples.
\<close>

definition window_ok :: "int \<Rightarrow> (int \<rightharpoonup> example list option) \<Rightarrow> int \<Rightarrow> bool" where
  "window_ok k0 d c = (case d c of Some (Some xs) \<Rightarrow> 2 * k0 \<le> int (length xs) | _ \<Rightarrow> False)"

definition pool :: "(int \<rightharpoonup> example list option) \<Rightarrow> int \<Rightarrow> example list" where
  "pool d c = (case d c of Some (Some xs) \<Rightarrow> xs | _ \<Rightarrow> [])"

text \<open>The positions of the trainable parameters in \<^verbatim>\<open>parameters()\<close>.\<close>

definition updateable_idx :: "vec tensor list \<Rightarrow> nat list" where
  "updateable_idx ps = filter (\<lambda>i. p_requires_grad (ps ! i)) [0..<length ps]"

text \<open>
  What a pass of the inner loop keeps: the shared model, the configuration, and the
  entries of the classifier tensors and of the task model's parameters (with their flags
  and the mode).
\<close>

definition same_values :: "protomaml \<Rightarrow> protomaml \<Rightarrow> bool" where
  "same_values s s' =
     (model_shared s' = model_shared s \<and> n_inner s' = n_inner s \<and> n_outer s' = n_outer s \<and>
      clip_val s' = clip_val s \<and> task_name s' = task_name s \<and>
      map_attr p_data (W_task s') = map_attr p_data (W_task s) \<and>
      map_attr p_data (b_task s') = map_attr p_data (b_task s) \<and>
      map_attr (\<lambda>m. (map p_data (params m), map p_requires_grad (params m), training m)) (model_task s')
        = map_attr (\<lambda>m. (map p_data (params m), map p_requires_grad (params m), training m)) (model_task s))"

text \<open>The entries held by the task attributes of a state: \<^verbatim>\<open>W_task\<close>, \<^verbatim>\<open>b_task\<close> and the
  parameters of \<^verbatim>\<open>model_task\<close>, with its mode.\<close>

definition held :: "protomaml \<Rightarrow> matrix attr \<times> vec attr \<times> (vec list \<times> bool) attr" where
  "held s = (map_attr p_data (W_task s), map_attr p_data (b_task s),
             map_attr (\<lambda>m. (map p_data (params m), training m)) (model_task s))"

section \<open>Concrete inputs\<close>

text \<open>Concrete loaders: two classes of \<open>2k\<close> examples, one class of exactly \<open>2k\<close>
  examples, and one class of fewer than \<open>2k\<close> examples, all with \<open>k = 1\<close>, no tokenizer
  and no shuffling; and the two classes again with a tokenizer that maps each text to its
  length.\<close>

definition two_class_dataset :: dataset where
  "two_class_dataset =
     [(0, [\<lparr>ex_text = ''a'', ex_labels = 0\<rparr>, \<lparr>ex_text = ''b'', ex_labels = 0\<rparr>]),
      (1, [\<lparr>ex_text = ''c'', ex_labels = 1\<rparr>, \<lparr>ex_text = ''d'', ex_labels = 1\<rparr>])]"

definition two_class_loader :: "unit stratified_loader" where
  "two_class_loader = stratified_init (\<lambda>c xs. xs) two_class_dataset 1 None False"

definition short_class_loader :: "unit stratified_loader" where
  "short_class_loader =
     stratified_init (\<lambda>c xs. xs) [(0, [\<lparr>ex_text = ''a'', ex_labels = 0\<rparr>])] 1 None False"

definition tokenized_loader :: "nat list stratified_loader" where
  "tokenized_loader =
     stratified_init (\<lambda>c xs. xs) two_class_dataset 1 (Some (\<lambda>ts. Inr (map length ts))) False"

definition exact_class_loader :: "unit stratified_loader" where
  "exact_class_loader =
     stratified_init (\<lambda>c xs. xs)
       [(0, [\<lparr>ex_text = ''a'', ex_labels = 0\<rparr>, \<lparr>ex_text = ''b'', ex_labels = 0\<rparr>])] 1 None False"

text \<open>
  A model with one trainable shared parameter of two entries, an encoder that adds the
  parameter to each input row, a loss with constant gradients, two inner and two outer
  steps and no clipping; a support batch of three examples of two classes; and a second
  state with the same shared model.
\<close>

definition toy_loss :: loss where
  "toy_loss = \<lparr> wrt_W = [[1, 0], [0, 1]], wrt_b = [1, 1],
                wrt_task = (\<lambda>i. Some [1, 2]), wrt_shared = (\<lambda>i. Some [3, 4]) \<rparr>"

definition toy_env :: "matrix torch" where
  "toy_env = \<lparr> encoder = (\<lambda>ps tr x. case ps of [w] \<Rightarrow> Inr (map (vadd w) x) | _ \<Rightarrow> Inl RuntimeError),
               lossfn = (\<lambda>s x logits lbls. Inr toy_loss),
               set_to_none = True \<rparr>"

definition toy_shared :: module where
  "toy_shared = \<lparr> params = [\<lparr>p_data = [0, 0], p_grad = None, p_requires_grad = True\<rparr>],
                  training = True \<rparr>"

definition toy_model :: protomaml where
  "toy_model = protomaml_init toy_shared 2 2 (1 / 1000) (1 / 10) 0"

definition toy_labels :: "int list" where
  "toy_labels = [0, 1, 0]"

definition toy_input :: matrix where
  "toy_input = [[1, 0], [0, 1], [1, 0]]"

definition toy_adapted :: protomaml where
  "toy_adapted = toy_model\<lparr>model_task := Val toy_shared\<rparr>"

section \<open>Properties of the samplers\<close>

subsection \<open>Windows of the stratified loader\<close>

lemma extend_batch_twice:
  "extend_batch (extend_batch b xs) ys = extend_batch b (xs @ ys)"
  by (simp add: extend_batch_def)

lemma slice_window:
  assumes "0 \<le> k0" "2 * k0 \<le> int (length xs)"
  shows "slice_to k0 (slice_to (2 * k0) xs) = take (nat k0) xs"
    and "slice_from k0 (slice_to (2 * k0) xs) = take (nat k0) (drop (nat k0) xs)"
  using assms by (simp_all add: slice_to_def slice_from_def min_def drop_take nat_mult_distrib)

lemma next_classes_window:
  assumes "0 \<le> k0" "distinct cs" "list_all (window_ok k0 d) cs"
  shows "\<exists>d'. next_classes k0 (s, q, d) cs =
     Inr (extend_batch s (concat (map (\<lambda>c. take (nat k0) (pool d c)) cs)),
          extend_batch q (concat (map (\<lambda>c. take (nat k0) (drop (nat k0) (pool d c))) cs)),
          d') \<and> (\<forall>c'. d' c' = (if c' \<in> set cs then Some None else d c'))"
  using assms
proof (induction cs arbitrary: s q d)
  case Nil
  then show ?case by (simp add: extend_batch_def)
next
  case (Cons c cs)
  from Cons.prems obtain xs where xs: "d c = Some (Some xs)" "2 * k0 \<le> int (length xs)"
    by (auto simp: window_ok_def split: option.splits)
  define d1 where "d1 = d(c \<mapsto> None)"
  have rest: "list_all (window_ok k0 d1) cs"
    using Cons.prems by (auto simp: list_all_iff window_ok_def d1_def)
  have pool_eq: "\<And>c'. c' \<in> set cs \<Longrightarrow> pool d1 c' = pool d c'"
    using Cons.prems by (auto simp: pool_def d1_def)
  have step: "next_class k0 (s, q, d) c =
      Inr (extend_batch s (take (nat k0) xs), extend_batch q (take (nat k0) (drop (nat k0) xs)), d1)"
    using xs slice_window[OF Cons.prems(1) xs(2)] by (simp add: next_class_def Let_def d1_def)
  have m1: "map (\<lambda>c. take (nat k0) (pool d1 c)) cs = map (\<lambda>c. take (nat k0) (pool d c)) cs"
    using pool_eq by simp
  have m2: "map (\<lambda>c. take (nat k0) (drop (nat k0) (pool d1 c))) cs
          = map (\<lambda>c. take (nat k0) (drop (nat k0) (pool d c))) cs"
    using pool_eq by simp
  have pc: "pool d c = xs" by (simp add: pool_def xs)
  have dc: "distinct cs" using Cons.prems(2) by simp
  from Cons.IH[OF Cons.prems(1) dc rest, of "extend_batch s (take (nat k0) xs)"
                  "extend_batch q (take (nat k0) (drop (nat k0) xs))", unfolded m1 m2 extend_batch_twice]
  obtain d' where ih: "next_classes k0 (extend_batch s (take (nat k0) xs),
        extend_batch q (take (nat k0) (drop (nat k0) xs)), d1) cs =
     Inr (extend_batch s (take (nat k0) xs @ concat (map (\<lambda>c. take (nat k0) (pool d c)) cs)),
          extend_batch q (take (nat k0) (drop (nat k0) xs) @
            concat (map (\<lambda>c. take (nat k0) (drop (nat k0) (pool d c))) cs)), d')"
    and d': "\<forall>c'. d' c' = (if c' \<in> set cs then Some None else d1 c')"
    by blast
  have "\<forall>c'. d' c' = (if c' \<in> set (c # cs) then Some None else d c')"
    using d' by (simp add: d1_def)
  then show ?case
    using ih by (simp add: step pc)
qed


lemma count_list_all_same:
  "\<forall>e\<in>set xs. f e = c \<Longrightarrow> count_list (map f xs) c = length xs"
  by (induction xs) auto

lemma count_list_none_same:
  "\<forall>e\<in>set xs. f e \<noteq> c \<Longrightarrow> count_list (map f xs) c = 0"
  by (induction xs) auto

lemma count_list_concat_classes:
  assumes "distinct cs" "c \<in> set cs" "\<forall>c'\<in>set cs. \<forall>e\<in>set (g c'). ex_labels e = c'"
  shows "count_list (map ex_labels (concat (map g cs))) c = length (g c)"
  using assms
proof (induction cs)
  case Nil
  then show ?case by simp
next
  case (Cons a cs)
  show ?case
  proof (cases "a = c")
    case True
    then have "c \<notin> set cs" using Cons.prems by simp
    then have "\<forall>e\<in>set (concat (map g cs)). ex_labels e \<noteq> c"
      using Cons.prems(3) by auto
    then have "count_list (map ex_labels (concat (map g cs))) c = 0"
      by (rule count_list_none_same)
    moreover have "count_list (map ex_labels (g a)) c = length (g a)"
      using Cons.prems(3) True by (intro count_list_all_same) simp
    ultimately show ?thesis using True by simp
  next
    case False
    then have "\<forall>e\<in>set (g a). ex_labels e \<noteq> c" using Cons.prems(3) by auto
    then have "count_list (map ex_labels (g a)) c = 0" by (rule count_list_none_same)
    moreover have "count_list (map ex_labels (concat (map g cs))) c = length (g c)"
      using Cons.IH Cons.prems False by auto
    ultimately show ?thesis by simp
  qed
qed

lemma zip_labels_text:
  "zip (map ex_labels xs) (map ex_text xs) = map (\<lambda>e. (ex_labels e, ex_text e)) xs"
  by (induction xs) auto

lemma example_pair_inj: "(ex_labels (e::example), ex_text e) = (ex_labels e', ex_text e') \<Longrightarrow> e = e'"
  by simp

subsection \<open>Calls of the stratified loader in general\<close>

text \<open>
  A loader built by \<^verbatim>\<open>__init__\<close> from a dataset whose classes hold full windows satisfies
  the conditions of the theorem below, whatever permutation the shuffle draws. Every
  class visited by a call is left with \<^verbatim>\<open>None\<close>, so that a call after a call that returned
  raises \<^verbatim>\<open>TypeError\<close>; and the first call on a loader built by \<^verbatim>\<open>__init__\<close> without a
  tokenizer returns, whatever the sizes of the classes.
\<close>

lemma stratified_init_data:
  assumes "distinct (map fst dataset)" "(c, xs) \<in> set dataset"
  shows "data (stratified_init rnd dataset k0 tok sh) c = Some (Some (if sh then rnd c xs else xs))"
proof -
  let ?f = "\<lambda>(c, xs). (c, Some (if sh then rnd c xs else xs))"
  have "map fst (map ?f dataset) = map fst dataset" by (induction dataset) auto
  then have "distinct (map fst (map ?f dataset))" using assms(1) by (simp only:)
  moreover have "(c, Some (if sh then rnd c xs else xs)) \<in> set (map ?f dataset)"
    using assms(2) by force
  ultimately show ?thesis by (simp add: stratified_init_def)
qed

lemma stratified_init_full_windows:
  assumes keys: "distinct (map fst dataset)"
    and perm: "\<And>c xs. mset (rnd c xs) = mset xs"
    and full: "\<forall>(c, xs)\<in>set dataset. 2 * k0 \<le> int (length xs) \<and> distinct xs \<and> (\<forall>e\<in>set xs. ex_labels e = c)"
  shows "distinct (labels (stratified_init rnd dataset k0 tok sh))"
    and "\<forall>c\<in>set (labels (stratified_init rnd dataset k0 tok sh)).
           \<exists>xs. data (stratified_init rnd dataset k0 tok sh) c = Some (Some xs) \<and>
             2 * k (stratified_init rnd dataset k0 tok sh) \<le> int (length xs) \<and>
             distinct xs \<and> (\<forall>e\<in>set xs. ex_labels e = c)"
proof -
  let ?ld = "stratified_init rnd dataset k0 tok sh"
  show "distinct (labels ?ld)" using keys by (simp add: stratified_init_def)
  show "\<forall>c\<in>set (labels ?ld). \<exists>xs. data ?ld c = Some (Some xs) \<and>
             2 * k ?ld \<le> int (length xs) \<and> distinct xs \<and> (\<forall>e\<in>set xs. ex_labels e = c)"
  proof
    fix c assume "c \<in> set (labels ?ld)"
    then obtain xs where in_ds: "(c, xs) \<in> set dataset" by (auto simp: stratified_init_def)
    let ?ys = "if sh then rnd c xs else xs"
    have m: "mset ?ys = mset xs" using perm by simp
    have p: "2 * k0 \<le> int (length xs)" "distinct xs" "\<forall>e\<in>set xs. ex_labels e = c"
      using full in_ds by auto
    have "length ?ys = length xs" using m by (metis size_mset)
    moreover have "distinct ?ys" using m p(2) by (metis mset_eq_imp_distinct_iff)
    moreover have "set ?ys = set xs" using m by (metis set_mset_mset)
    moreover have "k ?ld = k0" by (simp add: stratified_init_def)
    ultimately show "\<exists>xs. data ?ld c = Some (Some xs) \<and>
             2 * k ?ld \<le> int (length xs) \<and> distinct xs \<and> (\<forall>e\<in>set xs. ex_labels e = c)"
      using stratified_init_data[OF keys in_ds, of rnd k0 tok sh] p by auto
  qed
qed

lemma next_classes_consumes:
  assumes "next_classes k0 (s, q, d) cs = Inr (s', q', d')"
  shows "(\<forall>c\<in>set cs. d' c = Some None) \<and> (\<forall>c. c \<notin> set cs \<longrightarrow> d' c = d c)"
  using assms
proof (induction cs arbitrary: s q d)
  case Nil
  then show ?case by simp
next
  case (Cons c cs)
  from Cons.prems obtain s1 q1 d1 where st: "next_class k0 (s, q, d) c = Inr (s1, q1, d1)"
    and rest: "next_classes k0 (s1, q1, d1) cs = Inr (s', q', d')"
    by (auto split: sum.splits)
  have d1: "d1 = d(c \<mapsto> None)"
    using st by (auto simp: next_class_def Let_def split: option.splits)
  from Cons.IH[OF rest] have ih: "\<forall>c\<in>set cs. d' c = Some None" "\<forall>c. c \<notin> set cs \<longrightarrow> d' c = d1 c"
    by simp_all
  show ?case
  proof (intro conjI ballI allI impI)
    fix a assume "a \<in> set (c # cs)"
    then show "d' a = Some None" using ih d1 by (cases "a \<in> set cs") auto
  next
    fix a assume "a \<notin> set (c # cs)"
    then show "d' a = d a" using ih d1 by auto
  qed
qed

lemma next_classes_returns:
  assumes "distinct cs" "\<forall>c\<in>set cs. \<exists>xs. d c = Some (Some xs)"
  shows "\<exists>r. next_classes k0 (s, q, d) cs = Inr r"
  using assms
proof (induction cs arbitrary: s q d)
  case Nil
  then show ?case by simp
next
  case (Cons c cs)
  then obtain xs where xs: "d c = Some (Some xs)" by auto
  define d1 where "d1 = d(c \<mapsto> None)"
  have "\<forall>a\<in>set cs. \<exists>xs. d1 a = Some (Some xs)"
    using Cons.prems by (auto simp: d1_def)
  moreover have "distinct cs" using Cons.prems(1) by simp
  ultimately have "\<exists>r. next_classes k0 (extend_batch s (slice_to k0 (slice_to (2 * k0) xs)),
      extend_batch q (slice_from k0 (slice_to (2 * k0) xs)), d1) cs = Inr r"
    by (rule Cons.IH[rotated])
  moreover have "next_class k0 (s, q, d) c =
      Inr (extend_batch s (slice_to k0 (slice_to (2 * k0) xs)),
           extend_batch q (slice_from k0 (slice_to (2 * k0) xs)), d1)"
    by (simp add: next_class_def xs Let_def d1_def)
  ultimately show ?case by simp
qed

lemma stratified_next_Inr:
  assumes "stratified_next ld = Inr (r, ld')"
  shows "\<exists>sup qry d.
      next_classes (k ld) (empty_batch, empty_batch, data ld) (labels ld) = Inr (sup, qry, d) \<and>
      ld' = ld\<lparr>data := d\<rparr> \<and>
      (case tokenizer ld of
         None \<Rightarrow> r = ((b_labels sup, Inl (b_text sup)), (b_labels qry, Inl (b_text qry)))
       | Some tok \<Rightarrow> \<exists>ts tq. tok (b_text sup) = Inr ts \<and> tok (b_text qry) = Inr tq \<and>
           r = ((b_labels sup, Inr ts), (b_labels qry, Inr tq)))"
  using assms
  by (auto simp: stratified_next_def data_to_model_input_def long_tensor_def
      split: sum.splits option.splits prod.splits if_splits)

lemma stratified_next_then_raises:
  assumes "stratified_next ld = Inr (r, ld')" and "labels ld \<noteq> []"
  shows "stratified_next ld' = Inl TypeError"
proof -
  from stratified_next_Inr[OF assms(1)] obtain s q d
    where run: "next_classes (k ld) (empty_batch, empty_batch, data ld) (labels ld) = Inr (s, q, d)"
    and ld': "ld' = ld\<lparr>data := d\<rparr>"
    by blast
  obtain c cs where cs: "labels ld = c # cs" using assms(2) by (cases "labels ld") auto
  have "d c = Some None" using next_classes_consumes[OF run] cs by simp
  then have "next_class (k ld) (empty_batch, empty_batch, d) c = Inl TypeError"
    by (simp add: next_class_def)
  then show ?thesis by (simp add: stratified_next_def ld' cs)
qed

lemma stratified_next_fresh_returns:
  assumes "distinct (map fst dataset)"
  shows "\<exists>r. stratified_next
           (stratified_init rnd dataset k0 None sh :: 'tok stratified_loader) = Inr r"
proof -
  let ?ld = "stratified_init rnd dataset k0 None sh :: 'tok stratified_loader"
  have l: "labels ?ld = map fst dataset" and t: "tokenizer ?ld = None"
    by (simp_all add: stratified_init_def)
  have "\<forall>c\<in>set (labels ?ld). \<exists>xs. data ?ld c = Some (Some xs)"
    using stratified_init_data[OF assms] unfolding l by fastforce
  from next_classes_returns[OF _ this, of "k ?ld" empty_batch empty_batch] assms l
  obtain r where "next_classes (k ?ld) (empty_batch, empty_batch, data ?ld) (labels ?ld) = Inr r"
    by auto
  then show ?thesis by (cases r) (auto simp: stratified_next_def t)
qed

lemma stratified_calls_later:
  assumes "stratified_calls n ld0 = Inr ld"
  shows "labels ld = labels ld0 \<and> k ld = k ld0 \<and> tokenizer ld = tokenizer ld0 \<and>
         (n = 0 \<longrightarrow> ld = ld0) \<and> (0 < n \<longrightarrow> (\<forall>c\<in>set (labels ld0). data ld c = Some None))"
  using assms
proof (induction n arbitrary: ld0)
  case 0
  then show ?case by simp
next
  case (Suc n)
  then obtain r ld1 where first: "stratified_next ld0 = Inr (r, ld1)"
    and rest: "stratified_calls n ld1 = Inr ld"
    by (auto split: sum.splits)
  from stratified_next_Inr[OF first] obtain s q d
    where run: "next_classes (k ld0) (empty_batch, empty_batch, data ld0) (labels ld0) = Inr (s, q, d)"
    and ld1: "ld1 = ld0\<lparr>data := d\<rparr>"
    by blast
  have d: "\<forall>c\<in>set (labels ld0). data ld1 c = Some None"
    using next_classes_consumes[OF run] ld1 by simp
  note ih = Suc.IH[OF rest]
  have same: "labels ld = labels ld0" "k ld = k ld0" "tokenizer ld = tokenizer ld0"
    using ih ld1 by simp_all
  have "\<forall>c\<in>set (labels ld0). data ld c = Some None"
  proof (cases n)
    case 0
    then show ?thesis using ih d by simp
  next
    case (Suc m)
    then show ?thesis using ih ld1 by simp
  qed
  then show ?case using same by simp
qed

lemma filter_all_same: "\<forall>e\<in>set xs. P e \<Longrightarrow> filter P xs = xs"
  by (induction xs) auto

lemma filter_none_same: "\<forall>e\<in>set xs. \<not> P e \<Longrightarrow> filter P xs = []"
  by (induction xs) auto

lemma filter_concat_classes:
  assumes "distinct cs" "c \<in> set cs" "\<forall>c'\<in>set cs. \<forall>e\<in>set (g c'). ex_labels e = c'"
  shows "filter (\<lambda>e. ex_labels e = c) (concat (map g cs)) = g c"
  using assms
proof (induction cs)
  case Nil
  then show ?case by simp
next
  case (Cons a cs)
  show ?case
  proof (cases "a = c")
    case True
    then have "c \<notin> set cs" using Cons.prems by simp
    then have "\<forall>e\<in>set (concat (map g cs)). \<not> ex_labels e = c"
      using Cons.prems(3) by auto
    then have "filter (\<lambda>e. ex_labels e = c) (concat (map g cs)) = []"
      by (rule filter_none_same)
    moreover have "filter (\<lambda>e. ex_labels e = c) (g a) = g a"
      using Cons.prems(3) True by (intro filter_all_same) simp
    ultimately show ?thesis using True by simp
  next
    case False
    then have "\<forall>e\<in>set (g a). \<not> ex_labels e = c" using Cons.prems(3) by auto
    then have "filter (\<lambda>e. ex_labels e = c) (g a) = []" by (rule filter_none_same)
    moreover have "filter (\<lambda>e. ex_labels e = c) (concat (map g cs)) = g c"
      using Cons.IH Cons.prems False by auto
    ultimately show ?thesis by simp
  qed
qed

lemma filter_zip_labels_text:
  "filter (\<lambda>(l, t). l = c) (zip (map ex_labels xs) (map ex_text xs))
     = map (\<lambda>e. (ex_labels e, ex_text e)) (filter (\<lambda>e. ex_labels e = c) xs)"
  by (induction xs) auto

subsection \<open>Support and query sets of the stratified loader\<close>

text \<open>
  Claim C3. Let \<open>k\<close> be not negative and let every class of the loader hold a list of at
  least \<open>2k\<close> pairwise distinct examples, each labelled with its class. There are labels
  and texts \<open>sl\<close>, \<open>st\<close> of a support set and \<open>ql\<close>, \<open>qt\<close> of a query set such that the two
  sets share no example, hold examples of the loader's classes only, and hold of every
  class exactly the first \<open>k\<close> examples of its list (support) and the \<open>k\<close> examples after
  them (query). The first call of \<^verbatim>\<open>__next__\<close> returns them: as they are without a
  tokenizer, and with the texts tokenized when the tokenizer returns for both texts and
  the labels fit 64 bits. Every call in a sequence of calls on the loader that returns,
  returns them: a later call raises, unless the loader has no class.
\<close>

theorem stratified_next_disjoint_stratified:
  assumes k0: "0 \<le> k ld0" and dl: "distinct (labels ld0)"
    and pools: "\<forall>c\<in>set (labels ld0). \<exists>xs. data ld0 c = Some (Some xs) \<and>
           2 * k ld0 \<le> int (length xs) \<and> distinct xs \<and> (\<forall>e\<in>set xs. ex_labels e = c)"
  shows "\<exists>sl st ql qt.
      length st = length sl \<and> length qt = length ql \<and>
      set (zip sl st) \<inter> set (zip ql qt) = {} \<and>
      set sl \<subseteq> set (labels ld0) \<and> set ql \<subseteq> set (labels ld0) \<and>
      (\<forall>c\<in>set (labels ld0). \<exists>xs. data ld0 c = Some (Some xs) \<and>
          filter (\<lambda>(l, t). l = c) (zip sl st)
            = map (\<lambda>e. (ex_labels e, ex_text e)) (take (nat (k ld0)) xs) \<and>
          filter (\<lambda>(l, t). l = c) (zip ql qt)
            = map (\<lambda>e. (ex_labels e, ex_text e)) (take (nat (k ld0)) (drop (nat (k ld0)) xs)) \<and>
          int (count_list sl c) = k ld0 \<and> int (count_list ql c) = k ld0) \<and>
      (case tokenizer ld0 of
         None \<Rightarrow> \<exists>ld'. stratified_next ld0 = Inr (((sl, Inl st), (ql, Inl qt)), ld')
       | Some tok \<Rightarrow>
           \<forall>ts tq. tok st = Inr ts \<and> tok qt = Inr tq \<and>
                   list_all (\<lambda>l. - (2 ^ 63) \<le> l \<and> l < 2 ^ 63) (sl @ ql) \<longrightarrow>
             (\<exists>ld'. stratified_next ld0 = Inr (((sl, Inr ts), (ql, Inr tq)), ld'))) \<and>
      (\<forall>n ld r ld'. stratified_calls n ld0 = Inr ld \<and> stratified_next ld = Inr (r, ld') \<longrightarrow>
         (case tokenizer ld0 of
            None \<Rightarrow> r = ((sl, Inl st), (ql, Inl qt))
          | Some tok \<Rightarrow> \<exists>ts tq. tok st = Inr ts \<and> tok qt = Inr tq \<and>
                                r = ((sl, Inr ts), (ql, Inr tq))))"
proof -
  let ?cs = "labels ld0"
  let ?n = "nat (k ld0)"
  let ?pair = "\<lambda>e::example. (ex_labels e, ex_text e)"
  let ?S = "\<lambda>c. take ?n (pool (data ld0) c)"
  let ?Q = "\<lambda>c. take ?n (drop ?n (pool (data ld0) c))"
  let ?SS = "concat (map ?S ?cs)"
  let ?QQ = "concat (map ?Q ?cs)"
  define sl where "sl = map ex_labels ?SS"
  define st where "st = map ex_text ?SS"
  define ql where "ql = map ex_labels ?QQ"
  define qt where "qt = map ex_text ?QQ"
  define sup where "sup = extend_batch empty_batch ?SS"
  define qry where "qry = extend_batch empty_batch ?QQ"
  have w: "list_all (window_ok (k ld0) (data ld0)) ?cs"
    using pools by (auto simp: list_all_iff window_ok_def)
  obtain d where run: "next_classes (k ld0) (empty_batch, empty_batch, data ld0) ?cs =
      Inr (sup, qry, d)"
    using next_classes_window[OF k0 dl w] unfolding sup_def qry_def by blast
  have pool_props: "\<And>c. c \<in> set ?cs \<Longrightarrow> data ld0 c = Some (Some (pool (data ld0) c)) \<and>
       2 * k ld0 \<le> int (length (pool (data ld0) c))
       \<and> distinct (pool (data ld0) c) \<and> (\<forall>e\<in>set (pool (data ld0) c). ex_labels e = c)"
    using pools by (fastforce simp: pool_def)
  have fields: "b_labels sup = sl" "b_text sup = st" "b_labels qry = ql" "b_text qry = qt"
    by (simp_all add: sup_def qry_def sl_def st_def ql_def qt_def extend_batch_def empty_batch_def)
  have zs: "zip sl st = map ?pair ?SS" and zq: "zip ql qt = map ?pair ?QQ"
    unfolding sl_def st_def ql_def qt_def by (rule zip_labels_text)+
  have Slab: "\<forall>c'\<in>set ?cs. \<forall>e\<in>set (?S c'). ex_labels e = c'"
    using pool_props by (meson in_set_takeD)
  have Qlab: "\<forall>c'\<in>set ?cs. \<forall>e\<in>set (?Q c'). ex_labels e = c'"
    using pool_props by (meson in_set_takeD in_set_dropD)
  have lens: "length st = length sl" "length qt = length ql"
    by (simp_all add: sl_def st_def ql_def qt_def)
  have disj: "set ?SS \<inter> set ?QQ = {}"
  proof (rule ccontr)
    assume "\<not> ?thesis"
    then obtain e c c' where c: "c \<in> set ?cs" "e \<in> set (?S c)"
      and c': "c' \<in> set ?cs" "e \<in> set (?Q c')" by auto
    have "c = c'" using Slab Qlab c c' by metis
    moreover have "set (?S c) \<inter> set (drop ?n (pool (data ld0) c)) = {}"
      using pool_props[OF c(1)] by (simp add: set_take_disj_set_drop_if_distinct)
    ultimately show False using c(2) c'(2) by (meson disjoint_iff in_set_takeD)
  qed
  have zdisj: "set (zip sl st) \<inter> set (zip ql qt) = {}"
  proof -
    have inj: "inj ?pair" by (rule injI) simp
    show ?thesis unfolding zs zq set_map using disj by (simp add: image_Int[OF inj, symmetric])
  qed
  have subs: "set sl \<subseteq> set ?cs" "set ql \<subseteq> set ?cs"
    using Slab Qlab by (auto simp: sl_def ql_def)
  have per: "\<forall>c\<in>set ?cs. \<exists>xs. data ld0 c = Some (Some xs) \<and>
          filter (\<lambda>(l, t). l = c) (zip sl st) = map ?pair (take ?n xs) \<and>
          filter (\<lambda>(l, t). l = c) (zip ql qt) = map ?pair (take ?n (drop ?n xs)) \<and>
          int (count_list sl c) = k ld0 \<and> int (count_list ql c) = k ld0"
  proof
    fix c assume c: "c \<in> set ?cs"
    have f1: "filter (\<lambda>(l, t). l = c) (zip sl st) = map ?pair (?S c)"
      unfolding sl_def st_def filter_zip_labels_text
      by (simp only: filter_concat_classes[OF dl c Slab])
    have f2: "filter (\<lambda>(l, t). l = c) (zip ql qt) = map ?pair (?Q c)"
      unfolding ql_def qt_def filter_zip_labels_text
      by (simp only: filter_concat_classes[OF dl c Qlab])
    have "count_list sl c = length (?S c)"
      unfolding sl_def by (rule count_list_concat_classes[OF dl c Slab])
    moreover have "count_list ql c = length (?Q c)"
      unfolding ql_def by (rule count_list_concat_classes[OF dl c Qlab])
    moreover have "int (length (?S c)) = k ld0" "int (length (?Q c)) = k ld0"
      using pool_props[OF c] k0 by auto
    ultimately have cnt: "int (count_list sl c) = k ld0" "int (count_list ql c) = k ld0"
      by simp_all
    show "\<exists>xs. data ld0 c = Some (Some xs) \<and>
          filter (\<lambda>(l, t). l = c) (zip sl st) = map ?pair (take ?n xs) \<and>
          filter (\<lambda>(l, t). l = c) (zip ql qt) = map ?pair (take ?n (drop ?n xs)) \<and>
          int (count_list sl c) = k ld0 \<and> int (count_list ql c) = k ld0"
      using pool_props[OF c] f1 f2 cnt by blast
  qed
  have first: "case tokenizer ld0 of
         None \<Rightarrow> \<exists>ld'. stratified_next ld0 = Inr (((sl, Inl st), (ql, Inl qt)), ld')
       | Some tok \<Rightarrow>
           \<forall>ts tq. tok st = Inr ts \<and> tok qt = Inr tq \<and>
                   list_all (\<lambda>l. - (2 ^ 63) \<le> l \<and> l < 2 ^ 63) (sl @ ql) \<longrightarrow>
             (\<exists>ld'. stratified_next ld0 = Inr (((sl, Inr ts), (ql, Inr tq)), ld'))"
    using run
    by (auto simp: stratified_next_def fields data_to_model_input_def long_tensor_def
        split: option.splits)
  have first_r: "case tokenizer ld0 of
            None \<Rightarrow> r = ((sl, Inl st), (ql, Inl qt))
          | Some tok \<Rightarrow> \<exists>ts tq. tok st = Inr ts \<and> tok qt = Inr tq \<and>
                                r = ((sl, Inr ts), (ql, Inr tq))"
    if "stratified_next ld0 = Inr (r, ld')" for r ld'
    using stratified_next_Inr[OF that] run by (auto simp: fields split: option.splits)
  have every: "case tokenizer ld0 of
            None \<Rightarrow> r = ((sl, Inl st), (ql, Inl qt))
          | Some tok \<Rightarrow> \<exists>ts tq. tok st = Inr ts \<and> tok qt = Inr tq \<and>
                                r = ((sl, Inr ts), (ql, Inr tq))"
    if calls: "stratified_calls n ld0 = Inr ld" and ret: "stratified_next ld = Inr (r, ld')"
    for n ld r ld'
  proof (cases n)
    case 0
    then have "ld = ld0" using calls by simp
    then show ?thesis using first_r ret by simp
  next
    case (Suc m)
    note later = stratified_calls_later[OF calls]
    have none: "\<forall>c\<in>set ?cs. data ld c = Some None" using later Suc by simp
    have empty: "?cs = []"
    proof (rule ccontr)
      assume "?cs \<noteq> []"
      then obtain c cs where cs: "labels ld = c # cs" "c \<in> set ?cs"
        using later by (cases ?cs) auto
      then have "next_class (k ld) (empty_batch, empty_batch, data ld) c = Inl TypeError"
        using none by (simp add: next_class_def)
      then have "stratified_next ld = Inl TypeError" by (simp add: stratified_next_def cs)
      then show False using ret by simp
    qed
    have e: "sl = []" "st = []" "ql = []" "qt = []"
      by (simp_all add: sl_def st_def ql_def qt_def empty)
    have "labels ld = []" "tokenizer ld = tokenizer ld0" using later empty by simp_all
    then show ?thesis
      using stratified_next_Inr[OF ret]
      by (auto simp: e empty_batch_def split: option.splits)
  qed
  show ?thesis
    apply (rule exI[of _ sl], rule exI[of _ st], rule exI[of _ ql], rule exI[of _ qt])
    using lens zdisj subs per first every by blast
qed

theorem stratified_next_disjoint_stratified_witness:
  "(\<exists>sl st ql qt ld'.
      stratified_next two_class_loader = Inr (((sl, Inl st), (ql, Inl qt)), ld') \<and>
      sl = [0, 1] \<and> st = [''a'', ''c''] \<and> ql = [0, 1] \<and> qt = [''b'', ''d''] \<and>
      set (zip sl st) \<inter> set (zip ql qt) = {} \<and>
      count_list sl 0 = 1 \<and> count_list sl 1 = 1 \<and> count_list ql 0 = 1 \<and> count_list ql 1 = 1) \<and>
   (\<exists>sl (st :: string list) ql (qt :: string list) ld'.
      stratified_next tokenized_loader = Inr (((sl, Inr [1, 1]), (ql, Inr [1, 1])), ld') \<and>
      map length st = [1, 1] \<and> map length qt = [1, 1] \<and>
      set (zip sl st) \<inter> set (zip ql qt) = {} \<and>
      count_list sl 0 = 1 \<and> count_list sl 1 = 1 \<and> count_list ql 0 = 1 \<and> count_list ql 1 = 1)"
proof -
  have h1: "0 \<le> k two_class_loader"
    by (simp add: two_class_loader_def stratified_init_def)
  have h2: "distinct (labels two_class_loader)"
    by (simp add: two_class_loader_def stratified_init_def two_class_dataset_def)
  have h3: "\<forall>c\<in>set (labels two_class_loader). \<exists>xs. data two_class_loader c = Some (Some xs)
       \<and> 2 * k two_class_loader \<le> int (length xs) \<and> distinct xs \<and> (\<forall>e\<in>set xs. ex_labels e = c)"
    by (simp add: two_class_loader_def stratified_init_def two_class_dataset_def)
  have t: "tokenizer two_class_loader = None" "k two_class_loader = 1"
     "labels two_class_loader = [0, 1]"
    by (simp_all add: two_class_loader_def stratified_init_def two_class_dataset_def)
  have ev: "\<exists>ld'. stratified_next two_class_loader
        = Inr ((([0, 1], Inl [''a'', ''c'']), ([0, 1], Inl [''b'', ''d''])), ld')"
    by (simp add: two_class_loader_def two_class_dataset_def stratified_init_def
        stratified_next_def next_class_def slice_to_def slice_from_def extend_batch_def
        empty_batch_def)
  note th = stratified_next_disjoint_stratified[OF h1 h2 h3, unfolded t option.case]
  then obtain sl st ql qt ld' where
    dis: "set (zip sl st) \<inter> set (zip ql qt) = {}"
    and per: "\<forall>c\<in>set [0, 1]. \<exists>xs. data two_class_loader c = Some (Some xs) \<and>
          filter (\<lambda>(l, t). l = c) (zip sl st)
            = map (\<lambda>e. (ex_labels e, ex_text e)) (take (nat 1) xs) \<and>
          filter (\<lambda>(l, t). l = c) (zip ql qt)
            = map (\<lambda>e. (ex_labels e, ex_text e)) (take (nat 1) (drop (nat 1) xs)) \<and>
          int (count_list sl c) = 1 \<and> int (count_list ql c) = 1"
    and ret: "stratified_next two_class_loader = Inr (((sl, Inl st), (ql, Inl qt)), ld')"
    by (elim exE conjE) (rule that; assumption)
  have vals: "sl = [0, 1]" "st = [''a'', ''c'']" "ql = [0, 1]" "qt = [''b'', ''d'']"
    using ev ret by auto
  have cnt: "count_list sl 0 = 1" "count_list sl 1 = 1" "count_list ql 0 = 1" "count_list ql 1 = 1"
    using per by auto
  have first: "\<exists>sl st ql qt ld'.
      stratified_next two_class_loader = Inr (((sl, Inl st), (ql, Inl qt)), ld') \<and>
      sl = [0, 1] \<and> st = [''a'', ''c''] \<and> ql = [0, 1] \<and> qt = [''b'', ''d''] \<and>
      set (zip sl st) \<inter> set (zip ql qt) = {} \<and>
      count_list sl 0 = 1 \<and> count_list sl 1 = 1 \<and> count_list ql 0 = 1 \<and> count_list ql 1 = 1"
    using ret vals dis cnt by blast
  have g1: "0 \<le> k tokenized_loader"
    by (simp add: tokenized_loader_def stratified_init_def)
  have g2: "distinct (labels tokenized_loader)"
    by (simp add: tokenized_loader_def stratified_init_def two_class_dataset_def)
  have g3: "\<forall>c\<in>set (labels tokenized_loader). \<exists>xs. data tokenized_loader c = Some (Some xs)
       \<and> 2 * k tokenized_loader \<le> int (length xs) \<and> distinct xs \<and> (\<forall>e\<in>set xs. ex_labels e = c)"
    by (simp add: tokenized_loader_def stratified_init_def two_class_dataset_def)
  have u: "tokenizer tokenized_loader = Some (\<lambda>ts. Inr (map length ts))"
    "k tokenized_loader = 1" "labels tokenized_loader = [0, 1]"
    by (simp_all add: tokenized_loader_def stratified_init_def two_class_dataset_def)
  have ev2: "\<exists>ld'. stratified_next tokenized_loader
        = Inr ((([0, 1], Inr [1, 1]), ([0, 1], Inr [1, 1])), ld')"
    by (simp add: tokenized_loader_def two_class_dataset_def stratified_init_def
        stratified_next_def next_class_def slice_to_def slice_from_def extend_batch_def
        empty_batch_def data_to_model_input_def long_tensor_def)
  then obtain ld2 where ret2: "stratified_next tokenized_loader
        = Inr ((([0, 1], Inr [1, 1]), ([0, 1], Inr [1, 1])), ld2)" by blast
  have c0: "stratified_calls 0 tokenized_loader = Inr tokenized_loader" by simp
  note th2 = stratified_next_disjoint_stratified[OF g1 g2 g3, unfolded u option.case]
  then obtain sl2 st2 ql2 qt2 where
    dis2: "set (zip sl2 st2) \<inter> set (zip ql2 qt2) = {}"
    and per2: "\<forall>c\<in>set [0, 1]. \<exists>xs. data tokenized_loader c = Some (Some xs) \<and>
          filter (\<lambda>(l, t). l = c) (zip sl2 st2)
            = map (\<lambda>e. (ex_labels e, ex_text e)) (take (nat 1) xs) \<and>
          filter (\<lambda>(l, t). l = c) (zip ql2 qt2)
            = map (\<lambda>e. (ex_labels e, ex_text e)) (take (nat 1) (drop (nat 1) xs)) \<and>
          int (count_list sl2 c) = 1 \<and> int (count_list ql2 c) = 1"
    and every: "\<forall>n ld r ld'. stratified_calls n tokenized_loader = Inr ld \<and>
          stratified_next ld = Inr (r, ld') \<longrightarrow>
          (\<exists>ts tq. Inr (map length st2) = (Inr ts :: py_error + nat list) \<and>
                   Inr (map length qt2) = (Inr tq :: py_error + nat list) \<and>
                   r = ((sl2, Inr ts), (ql2, Inr tq)))"
    by (elim exE conjE) (rule that; assumption)
  from every[rule_format, OF conjI[OF c0 ret2]]
  have r2: "sl2 = [0, 1]" "ql2 = [0, 1]" "map length st2 = [1, 1]" "map length qt2 = [1, 1]"
    by auto
  have cnt2: "count_list sl2 0 = 1" "count_list sl2 1 = 1" "count_list ql2 0 = 1" "count_list ql2 1 = 1"
    using per2 by auto
  have second: "\<exists>sl (st :: string list) ql (qt :: string list) ld'.
      stratified_next tokenized_loader = Inr (((sl, Inr [1, 1]), (ql, Inr [1, 1])), ld') \<and>
      map length st = [1, 1] \<and> map length qt = [1, 1] \<and>
      set (zip sl st) \<inter> set (zip ql qt) = {} \<and>
      count_list sl 0 = 1 \<and> count_list sl 1 = 1 \<and> count_list ql 0 = 1 \<and> count_list ql 1 = 1"
    apply (rule exI[of _ sl2], rule exI[of _ st2], rule exI[of _ ql2], rule exI[of _ qt2],
        rule exI[of _ ld2])
    using ret2 r2 dis2 cnt2 by simp
  show ?thesis using first second by (rule conjI)
qed

text \<open>
  Claim C4. With one class of exactly \<open>2k\<close> examples the first call returns \<open>k\<close> support and
  \<open>k\<close> query items, and stores \<^verbatim>\<open>None\<close> under the class; the second consecutive call
  raises \<^verbatim>\<open>TypeError\<close>: nothing is recycled.
\<close>

theorem stratified_next_second_call_raises:
  "\<exists>ld'. stratified_next exact_class_loader
           = Inr ((([0], Inl [''a'']), ([0], Inl [''b''])), ld') \<and>
         data ld' 0 = Some None \<and>
         stratified_next ld' = Inl TypeError"
  by (simp add: exact_class_loader_def stratified_init_def stratified_next_def
      next_class_def slice_to_def slice_from_def extend_batch_def empty_batch_def
      data_to_model_input_def)

text \<open>
  Claim C5. With a class of one example and \<open>k = 1\<close> (fewer than \<open>2k\<close> examples) the first
  call raises nothing: it returns a support set of one example and an empty query set.
\<close>

theorem stratified_next_short_class_returns:
  "\<exists>ld'. stratified_next short_class_loader
           = Inr ((([0], Inl [''a'']), ([], Inl [])), ld')"
  by (simp add: short_class_loader_def stratified_init_def stratified_next_def
      next_class_def slice_to_def slice_from_def extend_batch_def empty_batch_def
      data_to_model_input_def)

subsection \<open>The number of classes of the adaptive loader\<close>

text \<open>
  Claim C10. With four classes and \<^verbatim>\<open>subset_classes\<close> enabled the number of classes is
  drawn from \<open>{2, 3}\<close>: the total number of classes, four, is never drawn.
\<close>

theorem adaptive_n_classes_excludes_total:
  "adaptive_n_classes [0, 1, 2, 3 :: int] True = {2, 3} \<and>
   int (length [0, 1, 2, 3 :: int]) \<notin> adaptive_n_classes [0, 1, 2, 3 :: int] True"
  by (auto simp: adaptive_n_classes_def np_random_randint_def)

section \<open>Properties of the ProtoMAML model\<close>

subsection \<open>The concrete model\<close>

lemmas toy_defs = toy_labels_def toy_env_def toy_shared_def toy_model_def toy_input_def toy_loss_def
  protomaml_init_def call_module_def

lemma toy_generate:
  "generate_clf_weights toy_env toy_model toy_labels toy_input = Inr ([[2, 0], [0, 2]], [-1, -1])"
  by (simp add: toy_defs generate_clf_weights_def generate_protoypes_def torch_unique_def
      mask_rows_def mean_dim0_def vadd_def vdiv_def vscale_def norm2_def Let_def)

lemma toy_adapt_returns:
  "\<exists>s'. adapt toy_env toy_model toy_labels toy_input None = Inr s'"
  by (simp add: toy_defs adapt_def adapt_setup_def del_task_def generate_clf_weights_def
      generate_protoypes_def torch_unique_def zero_grad_def
      mask_rows_def mean_dim0_def vadd_def vdiv_def vscale_def norm2_def Let_def
      numeral_2_eq_2 inner_step_def forward_def F_linear_def dot_def autograd_grad_def
      straight_through_def)

subsection \<open>\<^verbatim>\<open>forward\<close> without task parameters\<close>

text \<open>
  Claim C8. In a state where \<^verbatim>\<open>W_task\<close> and \<^verbatim>\<open>b_task\<close> are not both tensors, \<^verbatim>\<open>forward\<close>
  raises and returns no logits: \<^verbatim>\<open>ValueError\<close> when the first of the two that is not a
  tensor is \<^verbatim>\<open>None\<close>, as in a freshly constructed model, and \<^verbatim>\<open>AttributeError\<close> when it has
  been deleted (by an \<^verbatim>\<open>adapt\<close> that did not complete).
\<close>

theorem forward_without_task_parameters:
  assumes "\<not> (\<exists>W b. W_task s = Val W \<and> b_task s = Val b)"
  shows "forward env s x =
     (if W_task s = PyNone \<or> (W_task s \<noteq> Deleted \<and> b_task s = PyNone)
      then Inl ValueError else Inl AttributeError)"
  using assms by (auto simp: forward_def split: attr.splits)

theorem forward_without_task_parameters_witness:
  "forward toy_env toy_model toy_input = Inl ValueError"
  using forward_without_task_parameters[of toy_model toy_env toy_input]
  by (simp add: toy_model_def protomaml_init_def)

subsection \<open>Prototype weights\<close>

lemma generate_clf_weights_shared:
  "model_shared s' = model_shared s \<Longrightarrow>
   generate_clf_weights env s' lbls x = generate_clf_weights env s lbls x"
  by (simp add: generate_clf_weights_def generate_protoypes_def)

lemma length_torch_unique: "length (torch_unique lbls) = card (set lbls)"
  by (simp add: torch_unique_def length_remdups_card_conv)

lemma torch_unique_sorted_list: "torch_unique lbls = sorted_list_of_set (set lbls)"
  by (simp add: torch_unique_def sorted_list_of_set_sort_remdups)

lemma mask_rows_nth:
  assumes "length lbls = length y"
  shows "mask_rows y lbls c = map ((!) y) (filter (\<lambda>n. lbls ! n = c) [0..<length y])"
proof -
  have "zip lbls y = zip (map ((!) lbls) [0..<length y]) (map ((!) y) [0..<length y])"
    using assms map_nth[of lbls] map_nth[of y] by simp
  also have "\<dots> = map (\<lambda>n. (lbls ! n, y ! n)) [0..<length y]"
    by (simp add: zip_map_map zip_same_conv_map)
  finally show ?thesis
    by (simp add: mask_rows_def filter_map comp_def)
qed

lemma foldl_vadd_nth:
  assumes "length r = D" "list_all (\<lambda>r. length r = D) rs"
  shows "length (foldl vadd r rs) = D \<and>
         (\<forall>d<D. foldl vadd r rs ! d = r ! d + (\<Sum>q\<leftarrow>rs. q ! d))"
  using assms
proof (induction rs arbitrary: r)
  case Nil
  then show ?case by simp
next
  case (Cons a rs)
  have la: "length a = D" and lrs: "list_all (\<lambda>r. length r = D) rs"
    using Cons.prems by simp_all
  have lv: "length (vadd r a) = D" using Cons.prems la by (simp add: vadd_def)
  have nv: "\<And>d. d < D \<Longrightarrow> vadd r a ! d = r ! d + a ! d"
    using Cons.prems la by (simp add: vadd_def)
  from Cons.IH[OF lv lrs] nv show ?case by (simp add: add.assoc)
qed

lemma mean_dim0_nth:
  assumes "rows \<noteq> []" "list_all (\<lambda>r. length r = D) rows"
  shows "length (mean_dim0 rows) = D"
    and "d < D \<Longrightarrow> mean_dim0 rows ! d = (\<Sum>q\<leftarrow>rows. q ! d) / real (length rows)"
proof -
  obtain r rs where rows: "rows = r # rs" using assms(1) by (cases rows) auto
  then have "length r = D" "list_all (\<lambda>r. length r = D) rs" using assms(2) by simp_all
  from foldl_vadd_nth[OF this] rows
  show "length (mean_dim0 rows) = D"
    and "d < D \<Longrightarrow> mean_dim0 rows ! d = (\<Sum>q\<leftarrow>rows. q ! d) / real (length rows)"
    by (simp_all add: mean_dim0_def vdiv_def)
qed

lemma sum_list_filter_upt:
  "(\<Sum>n\<leftarrow>filter P [0..<N]. f n) = (\<Sum>n | n < N \<and> P n. (f n :: real))"
proof -
  have "set (filter P [0..<N]) = {n. n < N \<and> P n}" by auto
  then show ?thesis
    using sum_list_distinct_conv_sum_set[of "filter P [0..<N]" f] by simp
qed

lemma length_filter_upt: "length (filter P [0..<N]) = card {n. n < N \<and> P n}"
proof -
  have "set (filter P [0..<N]) = {n. n < N \<and> P n}" by auto
  then show ?thesis using distinct_card[of "filter P [0..<N]"] by simp
qed

lemma class_mean:
  assumes len: "length lbls = length y" and rect: "list_all (\<lambda>r. length r = D) y"
    and c: "c \<in> set lbls"
  shows "length (mean_dim0 (mask_rows y lbls c)) = D"
    and "d < D \<Longrightarrow> mean_dim0 (mask_rows y lbls c) ! d =
           (\<Sum>n | n < length lbls \<and> lbls ! n = c. y ! n ! d)
             / real (card {n. n < length lbls \<and> lbls ! n = c})"
proof -
  let ?idx = "filter (\<lambda>n. lbls ! n = c) [0..<length y]"
  have rows: "mask_rows y lbls c = map ((!) y) ?idx" by (rule mask_rows_nth[OF len])
  obtain n where "n < length lbls" "lbls ! n = c" using c by (auto simp: in_set_conv_nth)
  then have "n \<in> set ?idx" using len by simp
  then have "?idx \<noteq> []" by (metis empty_iff empty_set)
  then have ne: "mask_rows y lbls c \<noteq> []" unfolding rows by simp
  have r: "list_all (\<lambda>r. length r = D) (mask_rows y lbls c)"
    using rect unfolding rows by (auto simp: list_all_iff)
  show "length (mean_dim0 (mask_rows y lbls c)) = D" by (rule mean_dim0_nth(1)[OF ne r])
  assume d: "d < D"
  have "(\<Sum>q\<leftarrow>mask_rows y lbls c. q ! d) = (\<Sum>n\<leftarrow>?idx. y ! n ! d)"
    unfolding rows by (simp add: comp_def)
  also have "\<dots> = (\<Sum>n | n < length lbls \<and> lbls ! n = c. y ! n ! d)"
    using sum_list_filter_upt[of "\<lambda>n. y ! n ! d" "\<lambda>n. lbls ! n = c" "length y"] len by simp
  finally have num: "(\<Sum>q\<leftarrow>mask_rows y lbls c. q ! d)
      = (\<Sum>n | n < length lbls \<and> lbls ! n = c. y ! n ! d)" .
  have den: "length (mask_rows y lbls c) = card {n. n < length lbls \<and> lbls ! n = c}"
    unfolding rows using length_filter_upt[of "\<lambda>n. lbls ! n = c" "length y"] len by simp
  show "mean_dim0 (mask_rows y lbls c) ! d =
           (\<Sum>n | n < length lbls \<and> lbls ! n = c. y ! n ! d)
             / real (card {n. n < length lbls \<and> lbls ! n = c})"
    using mean_dim0_nth(2)[OF ne r d] num den by simp
qed

lemma generate_clf_weights_lengths:
  assumes "generate_clf_weights env s lbls x = Inr (W, b)"
  shows "length W = card (set lbls)" "length b = card (set lbls)"
  using assms
  by (auto simp: generate_clf_weights_def generate_protoypes_def Let_def length_torch_unique
      split: sum.splits if_splits)

text \<open>
  Claim C6. When \<^verbatim>\<open>generate_clf_weights\<close> returns \<open>(W_init, b_init)\<close> for a support batch
  whose embeddings \<open>y\<close> by the shared encoder have \<open>D\<close> columns, both have one entry per
  distinct label, in increasing order of the labels; the row of \<open>W_init\<close> for a label is
  twice the mean \<open>\<mu>\<close> of the embeddings of the examples with that label, and the entry of
  \<open>b_init\<close> is minus the Euclidean norm of \<open>\<mu>\<close>. The result is the same in every state
  with the same shared model: no other field of the model is read.
\<close>

theorem generate_clf_weights_prototypes:
  assumes gen: "generate_clf_weights env s lbls x = Inr (W_init, b_init)"
    and enc: "call_module env (model_shared s) x = Inr y"
    and rect: "list_all (\<lambda>r. length r = D) y"
  shows "length W_init = card (set lbls) \<and> length b_init = card (set lbls) \<and>
     (\<forall>t. model_shared t = model_shared s \<longrightarrow>
          generate_clf_weights env t lbls x = Inr (W_init, b_init)) \<and>
     (\<forall>j < card (set lbls). \<exists>\<mu>.
         length \<mu> = D \<and>
         (\<forall>d<D. \<mu> ! d =
            (\<Sum>n | n < length lbls \<and> lbls ! n = sorted_list_of_set (set lbls) ! j. y ! n ! d)
              / real (card {n. n < length lbls \<and> lbls ! n = sorted_list_of_set (set lbls) ! j})) \<and>
         W_init ! j = map (\<lambda>v. 2 * v) \<mu> \<and>
         b_init ! j = - sqrt (\<Sum>v\<leftarrow>\<mu>. v * v))"
proof -
  let ?u = "torch_unique lbls"
  let ?protos = "map (\<lambda>i. mean_dim0 (mask_rows y lbls i)) ?u"
  have ne: "?u \<noteq> []" and len: "length lbls = length y"
    and W: "W_init = map (vscale 2) ?protos" and b: "b_init = map (\<lambda>p. - norm2 p) ?protos"
    using gen enc
    by (auto simp: generate_clf_weights_def generate_protoypes_def Let_def split: if_splits)
  have lu: "length ?u = card (set lbls)" by (rule length_torch_unique)
  have main: "\<exists>\<mu>.
         length \<mu> = D \<and>
         (\<forall>d<D. \<mu> ! d =
            (\<Sum>n | n < length lbls \<and> lbls ! n = sorted_list_of_set (set lbls) ! j. y ! n ! d)
              / real (card {n. n < length lbls \<and> lbls ! n = sorted_list_of_set (set lbls) ! j})) \<and>
         W_init ! j = map (\<lambda>v. 2 * v) \<mu> \<and>
         b_init ! j = - sqrt (\<Sum>v\<leftarrow>\<mu>. v * v)" if j: "j < card (set lbls)" for j
  proof -
    let ?c = "sorted_list_of_set (set lbls) ! j"
    have cu: "?u ! j = ?c" by (simp add: torch_unique_sorted_list)
    have "?u ! j \<in> set ?u" using j lu by simp
    then have cin: "?c \<in> set lbls" unfolding cu[symmetric] by (simp add: torch_unique_def)
    let ?mu = "mean_dim0 (mask_rows y lbls ?c)"
    have "W_init ! j = map (\<lambda>v. 2 * v) ?mu" "b_init ! j = - sqrt (\<Sum>v\<leftarrow>?mu. v * v)"
      using j lu cu by (simp_all add: W b vscale_def norm2_def)
    then show ?thesis using class_mean[OF len rect cin] by blast
  qed
  have dep: "\<forall>t. model_shared t = model_shared s \<longrightarrow>
          generate_clf_weights env t lbls x = Inr (W_init, b_init)"
  proof (intro allI impI)
    fix t :: protomaml assume "model_shared t = model_shared s"
    then have "generate_clf_weights env t lbls x = generate_clf_weights env s lbls x"
      by (rule generate_clf_weights_shared)
    then show "generate_clf_weights env t lbls x = Inr (W_init, b_init)"
      by (simp only: gen)
  qed
  have "length W_init = card (set lbls)" "length b_init = card (set lbls)"
    using lu by (simp_all add: W b)
  then show ?thesis using main dep by blast
qed

theorem generate_clf_weights_prototypes_witness:
  "\<exists>W_init b_init y.
     generate_clf_weights toy_env toy_model toy_labels toy_input = Inr (W_init, b_init) \<and>
     call_module toy_env (model_shared toy_model) toy_input = Inr y \<and>
     length W_init = card (set toy_labels) \<and> length b_init = card (set toy_labels) \<and>
     generate_clf_weights toy_env toy_adapted toy_labels toy_input = Inr (W_init, b_init) \<and>
     (\<forall>j < card (set toy_labels). \<exists>\<mu>.
         length \<mu> = 2 \<and>
         (\<forall>d<2. \<mu> ! d =
            (\<Sum>n | n < length toy_labels \<and> toy_labels ! n = sorted_list_of_set (set toy_labels) ! j.
                y ! n ! d)
              / real (card {n. n < length toy_labels \<and>
                             toy_labels ! n = sorted_list_of_set (set toy_labels) ! j})) \<and>
         W_init ! j = map (\<lambda>v. 2 * v) \<mu> \<and>
         b_init ! j = - sqrt (\<Sum>v\<leftarrow>\<mu>. v * v))"
proof -
  have g: "generate_clf_weights toy_env toy_model toy_labels toy_input
             = Inr ([[2, 0], [0, 2]], [-1, -1])"
    by (rule toy_generate)
  have e: "call_module toy_env (model_shared toy_model) toy_input = Inr toy_input"
    by (simp add: toy_defs vadd_def)
  have r: "list_all (\<lambda>r. length r = 2) toy_input"
    by (simp add: toy_input_def)
  have sh: "model_shared toy_adapted = model_shared toy_model"
    by (simp add: toy_adapted_def)
  note th = generate_clf_weights_prototypes[OF g e r]
  from th sh have "generate_clf_weights toy_env toy_adapted toy_labels toy_input
             = Inr ([[2, 0], [0, 2]], [-1, -1])"
    by blast
  then show ?thesis
    using th g e by blast
qed

subsection \<open>Trainable parameters and clipping\<close>

lemma those_Some:
  "those xs = Some ys \<Longrightarrow> ys = map the xs \<and> list_all (\<lambda>x. x \<noteq> None) xs"
  by (induction xs arbitrary: ys) (auto split: option.splits)

lemma get_updateable_parameters_idx:
  "get_updateable_parameters m = map ((!) (params m)) (updateable_idx (params m))"
proof -
  have "filter p_requires_grad (map ((!) (params m)) [0..<length (params m)])
      = map ((!) (params m)) (updateable_idx (params m))"
    unfolding updateable_idx_def filter_map by (simp add: comp_def)
  then show ?thesis by (simp add: get_updateable_parameters_def map_nth)
qed

lemma updateable_idx_flags:
  "map p_requires_grad ps = map p_requires_grad qs \<Longrightarrow> updateable_idx ps = updateable_idx qs"
proof -
  assume a: "map p_requires_grad ps = map p_requires_grad qs"
  then have l: "length ps = length qs" by (rule map_eq_imp_length_eq)
  have "\<And>i. i < length ps \<Longrightarrow> p_requires_grad (ps ! i) = p_requires_grad (qs ! i)"
    using a l by (metis nth_map)
  then show ?thesis unfolding updateable_idx_def l[symmetric]
    by (intro filter_cong) auto
qed

lemma autograd_grad_Inr:
  assumes "autograd_grad wrt ps = Inr gs"
  shows "gs = map (\<lambda>i. the (wrt i)) (updateable_idx ps)"
    and "\<forall>i<length ps. p_requires_grad (ps ! i) \<longrightarrow> wrt i \<noteq> None"
proof -
  from assms have "those (map wrt (updateable_idx ps)) = Some gs"
    by (auto simp: autograd_grad_def updateable_idx_def split: option.splits)
  from those_Some[OF this]
  show "gs = map (\<lambda>i. the (wrt i)) (updateable_idx ps)"
    and "\<forall>i<length ps. p_requires_grad (ps ! i) \<longrightarrow> wrt i \<noteq> None"
    by (auto simp: updateable_idx_def list_all_iff comp_def)
qed

lemma zip_updateable_idx:
  "zip_updateable f ps (map g (updateable_idx ps)) =
   map (\<lambda>i. if p_requires_grad (ps ! i) then f (ps ! i) (g i) else ps ! i) [0..<length ps]"
proof (induction ps arbitrary: g)
  case Nil
  then show ?case by simp
next
  case (Cons p ps)
  have idx: "updateable_idx (p # ps) =
      (if p_requires_grad p then [0] else []) @ map Suc (updateable_idx ps)"
    by (simp add: updateable_idx_def upt_conv_Cons map_Suc_upt[symmetric] filter_map comp_def
        del: upt_Suc)
  have up: "[0..<length (p # ps)] = 0 # map Suc [0..<length ps]"
    by (simp add: upt_conv_Cons map_Suc_upt del: upt_Suc)
  show ?case
    unfolding idx up using Cons.IH[of "g \<circ> Suc"]
    by (simp add: comp_def)
qed

lemma grad_sq_nonneg: "0 \<le> grad_sq p"
  by (auto simp: grad_sq_def intro!: sum_list_nonneg split: option.splits)

lemma total_norm_nonneg: "0 \<le> total_norm ps"
  by (auto simp: total_norm_def intro!: sum_list_nonneg grad_sq_nonneg)

lemma clip_coef_range: "0 < mx \<Longrightarrow> 0 < clip_coef mx ps \<and> clip_coef mx ps \<le> 1"
proof -
  assume mx: "0 < mx"
  have "0 < total_norm ps + 1 / 1000000" using total_norm_nonneg[of ps] by simp
  then have "0 < mx / (total_norm ps + 1 / 1000000)" using mx by simp
  then show ?thesis by (simp add: clip_coef_def)
qed

subsection \<open>The inner loop of \<^verbatim>\<open>adapt\<close>\<close>

lemma zip_updateable_data:
  assumes "\<And>p g. p_data (f p g) = p_data p"
  shows "map p_data (zip_updateable f ps gs) = map p_data ps"
  by (induction ps arbitrary: gs) (auto simp: assms split: list.splits)

lemma zip_updateable_flags:
  assumes "\<And>p g. p_requires_grad (f p g) = p_requires_grad p"
  shows "map p_requires_grad (zip_updateable f ps gs) = map p_requires_grad ps"
  by (induction ps arbitrary: gs) (auto simp: assms split: list.splits)

lemma clip_grad_norm_data: "map p_data (clip_grad_norm c ps) = map p_data ps"
  by (simp add: clip_grad_norm_def)

lemma clip_grad_norm_flags: "map p_requires_grad (clip_grad_norm c ps) = map p_requires_grad ps"
  by (simp add: clip_grad_norm_def)

lemma same_values_refl: "same_values s s"
  by (simp add: same_values_def)

lemma same_values_trans: "same_values a b \<Longrightarrow> same_values b c \<Longrightarrow> same_values a c"
  by (simp add: same_values_def)

lemma inner_step_same_values:
  "same_values s (state_after (inner_step env lbls x s))"
  by (auto simp: inner_step_def state_after_def same_values_def Let_def
      zip_updateable_data zip_updateable_flags clip_grad_norm_data clip_grad_norm_flags
      split: sum.splits attr.splits)

lemma inner_loop_same_values:
  "same_values s (state_after (inner_loop env lbls x n s))"
proof (induction n arbitrary: s)
  case 0
  then show ?case by (simp add: state_after_def same_values_refl)
next
  case (Suc n)
  show ?case
  proof (cases "inner_step env lbls x s")
    case (Inl r)
    then show ?thesis using inner_step_same_values[of s env lbls x] by simp
  next
    case (Inr s')
    then have "same_values s s'" using inner_step_same_values[of s env lbls x]
      by (simp add: state_after_def)
    then show ?thesis using Suc.IH[of s'] Inr by (auto intro: same_values_trans)
  qed
qed

lemma inner_loop_values:
  assumes "inner_loop env lbls x n s = Inr t"
  shows "same_values s t"
  using inner_loop_same_values[of s env lbls x n] assms by (simp add: state_after_def)

lemma inner_loop_prefix:
  "inner_loop env lbls x n s = Inr t \<Longrightarrow> j \<le> n \<Longrightarrow> \<exists>sj. inner_loop env lbls x j s = Inr sj"
proof (induction j arbitrary: s n)
  case 0
  then show ?case by simp
next
  case (Suc j)
  then obtain n' where n: "n = Suc n'" by (cases n) auto
  then obtain s1 where s1: "inner_step env lbls x s = Inr s1" "inner_loop env lbls x n' s1 = Inr t"
    using Suc.prems by (auto split: sum.splits)
  from Suc.IH[OF s1(2)] Suc.prems n obtain sj where "inner_loop env lbls x j s1 = Inr sj" by auto
  then show ?case using s1 by simp
qed

lemma same_values_held: "same_values s t \<Longrightarrow> held t = held s"
  by (cases "model_task s"; cases "model_task t") (auto simp: same_values_def held_def)

lemma vadd_vsub_self: "vadd v (vsub w v) = w" if "length w = length v"
  using that by (induction w v rule: list_induct2) (auto simp: vadd_def vsub_def)

lemma vadd_vsub_same: "vadd v (vsub v v) = v"
  by (simp add: vadd_vsub_self)

lemma madd_msub_self: "madd W (msub W W) = W"
  by (induction W) (auto simp: madd_def msub_def vadd_vsub_self)

lemma zero_grad_data: "map p_data (params (zero_grad b m)) = map p_data (params m)"
  by (simp add: zero_grad_def comp_def)

lemma zero_grad_training: "training (zero_grad b m) = training m"
  by (simp add: zero_grad_def)

lemma forward_held:
  assumes "held s = (Val W, Val b, Val (ds, tr))"
  shows "forward env s x =
     (case encoder env ds tr x of Inl e \<Rightarrow> Inl e | Inr y \<Rightarrow> F_linear y W b)"
  using assms
  by (cases "W_task s"; cases "b_task s"; cases "model_task s")
     (auto simp: held_def forward_def call_module_def)

lemma zero_grad_flags: "map p_requires_grad (params (zero_grad b m)) = map p_requires_grad (params m)"
  by (simp add: zero_grad_def comp_def)

lemma del_task_shared: "model_shared (state_after (del_task s)) = model_shared s"
  by (simp add: del_task_def state_after_def)

lemma adapt_setup_Inr:
  assumes "adapt_setup env s lbls x name = Inr (s3, W_init, b_init)"
  shows "generate_clf_weights env s lbls x = Inr (W_init, b_init)"
    and "model_shared s3 = model_shared s"
    and "n_inner s3 = n_inner s"
    and "W_task s3 = Val \<lparr>p_data = W_init, p_grad = None, p_requires_grad = True\<rparr>"
    and "b_task s3 = Val \<lparr>p_data = b_init, p_grad = None, p_requires_grad = True\<rparr>"
    and "model_task s3 = Val (zero_grad (set_to_none env) (model_shared s))"
    and "task_name s3 = name"
    and "n_outer s3 = n_outer s" and "clip_val s3 = clip_val s"
proof -
  obtain s1 where s1: "del_task (s\<lparr>task_name := name\<rparr>) = Inr s1"
    using assms by (auto simp: adapt_setup_def split: sum.splits)
  then have s1_eq: "s1 = s\<lparr>task_name := name, model_task := Deleted, W_task := Deleted, b_task := Deleted\<rparr>"
    by (auto simp: del_task_def split: if_splits)
  define s2 where "s2 = s1\<lparr>model_task := Val (zero_grad (set_to_none env) (model_shared s1))\<rparr>"
  have g2: "generate_clf_weights env s2 lbls x = Inr (W_init, b_init)"
    and s3: "s3 = s2\<lparr>W_task := Val \<lparr>p_data = W_init, p_grad = None, p_requires_grad = True\<rparr>,
                      b_task := Val \<lparr>p_data = b_init, p_grad = None, p_requires_grad = True\<rparr>\<rparr>"
    using assms s1 by (auto simp: adapt_setup_def s2_def Let_def split: sum.splits)
  have "model_shared s2 = model_shared s" by (simp add: s2_def s1_eq)
  then show "generate_clf_weights env s lbls x = Inr (W_init, b_init)"
    using g2 generate_clf_weights_shared by metis
  show "model_shared s3 = model_shared s" "n_inner s3 = n_inner s"
    "W_task s3 = Val \<lparr>p_data = W_init, p_grad = None, p_requires_grad = True\<rparr>"
    "b_task s3 = Val \<lparr>p_data = b_init, p_grad = None, p_requires_grad = True\<rparr>"
    "model_task s3 = Val (zero_grad (set_to_none env) (model_shared s))"
    "task_name s3 = name" "n_outer s3 = n_outer s" "clip_val s3 = clip_val s"
    by (simp_all add: s3 s2_def s1_eq)
qed

lemma adapt_setup_shared:
  "model_shared (case adapt_setup env s lbls x name of Inl (e, t) \<Rightarrow> t | Inr (t, W, b) \<Rightarrow> t)
     = model_shared s"
  by (auto simp: adapt_setup_def del_task_def Let_def split: sum.splits if_splits)

lemma straight_through_shared:
  "model_shared (state_after (straight_through s W b)) = model_shared s"
  by (auto simp: straight_through_def state_after_def Let_def split: attr.splits)

lemma straight_through_held:
  assumes "straight_through s W b = Inr s'" "held s = (Val W, Val b, M)"
  shows "held s' = (Val W, Val b, M)"
  using assms
  by (auto simp: straight_through_def held_def Let_def madd_msub_self vadd_vsub_same
      split: attr.splits)

lemma straight_through_keeps:
  assumes "straight_through s W b = Inr s'"
  shows "model_shared s' = model_shared s" "model_task s' = model_task s"
    "n_outer s' = n_outer s" "clip_val s' = clip_val s" "n_inner s' = n_inner s"
    "task_name s' = task_name s"
  using assms by (auto simp: straight_through_def Let_def split: attr.splits)

lemma adapt_Inr_task:
  assumes "adapt env s lbls x name = Inr s'"
  shows "model_shared s' = model_shared s" "n_outer s' = n_outer s" "clip_val s' = clip_val s"
    "\<exists>m. model_task s' = Val m \<and>
         map p_requires_grad (params m) = map p_requires_grad (params (model_shared s'))"
proof -
  obtain s3 W_init b_init s4 where
    pre: "adapt_setup env s lbls x name = Inr (s3, W_init, b_init)"
    and loop: "inner_loop env lbls x (nat (n_inner s3)) s3 = Inr s4"
    and final: "straight_through s4 W_init b_init = Inr s'"
    using assms by (auto simp: adapt_def split: sum.splits prod.splits)
  note su = adapt_setup_Inr[OF pre]
  note sv = inner_loop_values[OF loop, unfolded same_values_def]
  note fi = straight_through_keeps[OF final]
  show sh: "model_shared s' = model_shared s" using su sv fi by simp
  show "n_outer s' = n_outer s" "clip_val s' = clip_val s" using su sv fi by simp_all
  have "map_attr (\<lambda>m. map p_requires_grad (params m)) (model_task s4)
      = Val (map p_requires_grad (params (model_shared s)))"
    using sv su(6) by (cases "model_task s4") (auto simp: zero_grad_flags)
  then obtain m where "model_task s4 = Val m"
    "map p_requires_grad (params m) = map p_requires_grad (params (model_shared s))"
    by (cases "model_task s4") auto
  then show "\<exists>m. model_task s' = Val m \<and>
         map p_requires_grad (params m) = map p_requires_grad (params (model_shared s'))"
    using fi sh by simp
qed

text \<open>
  Claim C9. Whether \<^verbatim>\<open>adapt\<close> returns or raises, the shared model it leaves behind is the
  shared model it started from: the entries, the stored gradients and the flags of every
  shared parameter, and the mode.
\<close>

theorem adapt_keeps_shared:
  "model_shared (state_after (adapt env s lbls x name)) = model_shared s"
proof (cases "adapt_setup env s lbls x name")
  case (Inl r)
  then show ?thesis
    using adapt_setup_shared[of env s lbls x name]
    by (auto simp: adapt_def state_after_def split: prod.splits)
next
  case (Inr t)
  then obtain s3 W_init b_init where t: "adapt_setup env s lbls x name = Inr (s3, W_init, b_init)"
    by (cases t) auto
  have s3: "model_shared s3 = model_shared s" using adapt_setup_Inr(2)[OF t] .
  have loop: "model_shared (state_after (inner_loop env lbls x (nat (n_inner s3)) s3)) = model_shared s3"
    using inner_loop_same_values[of s3 env lbls x "nat (n_inner s3)"] by (simp add: same_values_def)
  show ?thesis
  proof (cases "inner_loop env lbls x (nat (n_inner s3)) s3")
    case (Inl r)
    then show ?thesis using loop s3 t by (simp add: adapt_def state_after_def)
  next
    case (Inr s4)
    then have "model_shared s4 = model_shared s" using loop s3 by (simp add: state_after_def)
    then show ?thesis using t Inr straight_through_shared[of s4 W_init b_init]
      by (simp add: adapt_def)
  qed
qed

lemma clip_step_grads:
  assumes "autograd_grad wrt ps = Inr gs"
  shows "\<exists>c. 0 < c \<and> c \<le> 1 \<and> (cv \<le> 0 \<longrightarrow> c = 1) \<and>
     (let stored = zip_updateable (\<lambda>p g. p\<lparr>p_grad := Some g\<rparr>) ps gs;
          ps' = (if cv > 0 then clip_grad_norm cv stored else stored)
      in length ps' = length ps \<and>
         (\<forall>i<length ps.
            p_data (ps' ! i) = p_data (ps ! i) \<and>
            p_requires_grad (ps' ! i) = p_requires_grad (ps ! i) \<and>
            (if p_requires_grad (ps ! i)
             then \<exists>g. wrt i = Some g \<and> p_grad (ps' ! i) = Some (map (\<lambda>v. c * v) g)
             else p_grad (ps' ! i) = p_grad (ps ! i))))"
proof -
  let ?f = "\<lambda>p g. p\<lparr>p_grad := Some g\<rparr> :: vec tensor"
  define stored where "stored = zip_updateable ?f ps gs"
  note ag = autograd_grad_Inr[OF assms]
  have st: "stored = map (\<lambda>i. if p_requires_grad (ps ! i) then ?f (ps ! i) (the (wrt i)) else ps ! i)
                       [0..<length ps]"
    unfolding stored_def ag(1) by (rule zip_updateable_idx)
  define c where "c = (if cv > 0 then clip_coef cv stored else 1)"
  have c: "0 < c" "c \<le> 1" "cv \<le> 0 \<longrightarrow> c = 1"
    using clip_coef_range[of cv stored] by (auto simp: c_def)
  define ps' where "ps' = (if cv > 0 then clip_grad_norm cv stored else stored)"
  have ps': "ps' = map (\<lambda>p. if p_requires_grad p
        then p\<lparr>p_grad := map_option (map (\<lambda>v. c * v)) (p_grad p)\<rparr> else p) stored"
  proof (cases "cv > 0")
    case True
    have "vscale c = map (\<lambda>v. c * v)" by (rule ext) (simp add: vscale_def)
    then show ?thesis using True by (simp add: ps'_def clip_grad_norm_def c_def)
  next
    case False
    then have c1: "c = 1" by (simp add: c_def)
    have "(if p_requires_grad p then p\<lparr>p_grad := map_option (map (\<lambda>v. c * v)) (p_grad p)\<rparr> else p) = p"
      for p :: "vec tensor"
      unfolding c1 by (cases "p_grad p") simp_all
    then have "map (\<lambda>p. if p_requires_grad p
         then p\<lparr>p_grad := map_option (map (\<lambda>v. c * v)) (p_grad p)\<rparr> else p) stored = stored"
      by (simp add: map_idI)
    then show ?thesis using False by (simp add: ps'_def)
  qed
  have len: "length ps' = length ps" by (simp add: ps' st)
  have per: "p_data (ps' ! i) = p_data (ps ! i) \<and>
            p_requires_grad (ps' ! i) = p_requires_grad (ps ! i) \<and>
            (if p_requires_grad (ps ! i)
             then \<exists>g. wrt i = Some g \<and> p_grad (ps' ! i) = Some (map (\<lambda>v. c * v) g)
             else p_grad (ps' ! i) = p_grad (ps ! i))" if i: "i < length ps" for i
  proof (cases "p_requires_grad (ps ! i)")
    case True
    then obtain g where g: "wrt i = Some g" using ag(2) i by auto
    then show ?thesis using True i by (simp add: ps' st)
  next
    case False
    then show ?thesis using i by (simp add: ps' st)
  qed
  show ?thesis
    apply (rule exI[of _ c])
    using c len per unfolding Let_def stored_def[symmetric] ps'_def[symmetric] by blast
qed

lemma inner_step_Inr:
  assumes "inner_step env lbls x s = Inr s'"
  shows "\<exists>logits l W b m m' c.
      forward env s x = Inr logits \<and> lossfn env s x logits lbls = Inr l \<and>
      W_task s = Val W \<and> b_task s = Val b \<and> model_task s = Val m \<and>
      W_task s' = Val (W\<lparr>p_grad := Some (wrt_W l)\<rparr>) \<and>
      b_task s' = Val (b\<lparr>p_grad := Some (wrt_b l)\<rparr>) \<and>
      model_task s' = Val m' \<and>
      0 < c \<and> c \<le> 1 \<and> (clip_val s \<le> 0 \<longrightarrow> c = 1) \<and>
      length (params m') = length (params m) \<and>
      (\<forall>i<length (params m).
          if p_requires_grad (params m ! i)
          then \<exists>g. wrt_task l i = Some g \<and> p_grad (params m' ! i) = Some (map (\<lambda>v. c * v) g)
          else p_grad (params m' ! i) = p_grad (params m ! i))"
proof -
  obtain logits where fw: "forward env s x = Inr logits"
    using assms by (auto simp: inner_step_def split: sum.splits)
  obtain l where l: "lossfn env s x logits lbls = Inr l"
    using assms fw by (auto simp: inner_step_def split: sum.splits)
  obtain W b m where v: "W_task s = Val W" "b_task s = Val b" "model_task s = Val m"
    using assms fw l by (auto simp: inner_step_def split: attr.splits)
  obtain gs where gs: "autograd_grad (wrt_task l) (params m) = Inr gs"
    using assms fw l v by (auto simp: inner_step_def split: sum.splits)
  define stored where "stored = zip_updateable (\<lambda>p g. p\<lparr>p_grad := Some g\<rparr>) (params m) gs"
  define ps' where "ps' = (if clip_val s > 0 then clip_grad_norm (clip_val s) stored else stored)"
  have s': "s' = s\<lparr>W_task := Val (W\<lparr>p_grad := Some (wrt_W l)\<rparr>),
                   b_task := Val (b\<lparr>p_grad := Some (wrt_b l)\<rparr>),
                   model_task := Val (m\<lparr>params := ps'\<rparr>)\<rparr>"
    using assms fw l v gs by (auto simp: inner_step_def Let_def stored_def ps'_def)
  from clip_step_grads[OF gs, of "clip_val s"] obtain c where
    c: "0 < c" "c \<le> 1" "clip_val s \<le> 0 \<longrightarrow> c = 1"
    and len: "length ps' = length (params m)"
    and per: "\<forall>i<length (params m).
            p_data (ps' ! i) = p_data (params m ! i) \<and>
            p_requires_grad (ps' ! i) = p_requires_grad (params m ! i) \<and>
            (if p_requires_grad (params m ! i)
             then \<exists>g. wrt_task l i = Some g \<and> p_grad (ps' ! i) = Some (map (\<lambda>v. c * v) g)
             else p_grad (ps' ! i) = p_grad (params m ! i))"
    unfolding Let_def stored_def[symmetric] ps'_def[symmetric] by blast
  have per': "\<forall>i<length (params m).
          if p_requires_grad (params m ! i)
          then \<exists>g. wrt_task l i = Some g \<and> p_grad (ps' ! i) = Some (map (\<lambda>v. c * v) g)
          else p_grad (ps' ! i) = p_grad (params m ! i)"
    using per by simp
  show ?thesis
    apply (rule exI[of _ logits], rule exI[of _ l], rule exI[of _ W], rule exI[of _ b],
        rule exI[of _ m], rule exI[of _ "m\<lparr>params := ps'\<rparr>"], rule exI[of _ c])
    using fw l v c len per' by (simp add: s')
qed

lemma inner_loop_Suc:
  "inner_loop env lbls x (Suc n) s =
     (case inner_loop env lbls x n s of Inl r \<Rightarrow> Inl r | Inr t \<Rightarrow> inner_step env lbls x t)"
proof (induction n arbitrary: s)
  case 0
  then show ?case by (simp split: sum.splits)
next
  case (Suc n)
  show ?case
  proof (cases "inner_step env lbls x s")
    case (Inl r)
    then show ?thesis by simp
  next
    case (Inr s1)
    have "inner_loop env lbls x (Suc (Suc n)) s = inner_loop env lbls x (Suc n) s1"
      using Inr by simp
    also have "\<dots> = (case inner_loop env lbls x n s1 of Inl r \<Rightarrow> Inl r
                      | Inr t \<Rightarrow> inner_step env lbls x t)"
      by (rule Suc.IH)
    also have "inner_loop env lbls x n s1 = inner_loop env lbls x (Suc n) s"
      using Inr by simp
    finally show ?thesis .
  qed
qed

lemma same_values_task:
  assumes "same_values s t" "model_task s = Val m"
  shows "\<exists>m'. model_task t = Val m' \<and> length (params m') = length (params m) \<and>
           map p_requires_grad (params m') = map p_requires_grad (params m)"
proof -
  from assms obtain m' where m': "model_task t = Val m'"
    "map p_requires_grad (params m') = map p_requires_grad (params m)"
    by (cases "model_task t") (auto simp: same_values_def)
  then have "length (params m') = length (params m)" by (metis length_map)
  then show ?thesis using m' by blast
qed

text \<open>
  Claim C2. When \<^verbatim>\<open>adapt\<close> returns, after every number of passes of the inner loop up to
  \<^verbatim>\<open>n_inner\<close> the entries of \<^verbatim>\<open>W_task\<close> and \<^verbatim>\<open>b_task\<close> are those of \<open>W_init\<close> and
  \<open>b_init\<close>, the prototype weights of the support batch, and the entries of the task
  model's parameters are those of the shared model. Each of the \<^verbatim>\<open>n_inner\<close> passes runs the
  forward pass and the loss in the state before it, and stores the gradients of that loss:
  in \<^verbatim>\<open>W_task.grad\<close> and \<^verbatim>\<open>b_task.grad\<close> as they are, and in the \<^verbatim>\<open>.grad\<close> of every
  trainable parameter of the task model scaled by the clipping factor \<open>c\<close>, positive and
  at most one, and one when \<^verbatim>\<open>clip_val\<close> is not positive. The task model \<^verbatim>\<open>adapt\<close> leaves
  is that of the last pass. The same entries are held by the state \<^verbatim>\<open>adapt\<close>
  returns, after the straight-through reconstruction, so that \<^verbatim>\<open>forward\<close> in that state
  is the linear layer of \<open>W_init\<close> and \<open>b_init\<close> on the encoder with the shared values.
\<close>

theorem adapt_inner_loop_keeps_values:
  assumes "adapt env s lbls x name = Inr s'"
  shows "\<exists>s3 W_init b_init.
      adapt_setup env s lbls x name = Inr (s3, W_init, b_init) \<and>
      generate_clf_weights env s lbls x = Inr (W_init, b_init) \<and>
      (\<forall>j \<le> nat (n_inner s). \<exists>sj. inner_loop env lbls x j s3 = Inr sj \<and>
          held sj = (Val W_init, Val b_init,
                     Val (map p_data (params (model_shared s)), training (model_shared s)))) \<and>
      (\<forall>j < nat (n_inner s). \<exists>sj sj' logits l c m'.
          inner_loop env lbls x j s3 = Inr sj \<and>
          inner_loop env lbls x (Suc j) s3 = Inr sj' \<and>
          forward env sj x = Inr logits \<and> lossfn env sj x logits lbls = Inr l \<and>
          map_attr p_grad (W_task sj') = Val (Some (wrt_W l)) \<and>
          map_attr p_grad (b_task sj') = Val (Some (wrt_b l)) \<and>
          model_task sj' = Val m' \<and>
          0 < c \<and> c \<le> 1 \<and> (clip_val s \<le> 0 \<longrightarrow> c = 1) \<and>
          length (params m') = length (params (model_shared s)) \<and>
          (\<forall>i<length (params (model_shared s)).
              p_requires_grad (params (model_shared s) ! i) \<longrightarrow>
              (\<exists>g. wrt_task l i = Some g \<and>
                   p_grad (params m' ! i) = Some (map (\<lambda>v. c * v) g)))) \<and>
      held s' = (Val W_init, Val b_init,
                 Val (map p_data (params (model_shared s)), training (model_shared s))) \<and>
      (\<exists>s4. inner_loop env lbls x (nat (n_inner s)) s3 = Inr s4 \<and>
            model_task s' = model_task s4) \<and>
      (\<forall>q. forward env s' q =
         (case encoder env (map p_data (params (model_shared s))) (training (model_shared s)) q of
            Inl e \<Rightarrow> Inl e
          | Inr y \<Rightarrow> F_linear y W_init b_init))"
proof -
  obtain s3 W_init b_init s4 where
    pre: "adapt_setup env s lbls x name = Inr (s3, W_init, b_init)"
    and loop: "inner_loop env lbls x (nat (n_inner s3)) s3 = Inr s4"
    and final: "straight_through s4 W_init b_init = Inr s'"
    using assms by (auto simp: adapt_def split: sum.splits prod.splits)
  note su = adapt_setup_Inr[OF pre]
  let ?M = "Val (map p_data (params (model_shared s)), training (model_shared s))"
  have h3: "held s3 = (Val W_init, Val b_init, ?M)"
    by (simp add: held_def su zero_grad_data zero_grad_training)
  have steps: "\<forall>j \<le> nat (n_inner s). \<exists>sj. inner_loop env lbls x j s3 = Inr sj \<and>
          held sj = (Val W_init, Val b_init, ?M)"
  proof (intro allI impI)
    fix j assume "j \<le> nat (n_inner s)"
    then obtain sj where sj: "inner_loop env lbls x j s3 = Inr sj"
      using inner_loop_prefix[OF loop] su(3) by auto
    then have "held sj = held s3" by (intro same_values_held inner_loop_values)
    then show "\<exists>sj. inner_loop env lbls x j s3 = Inr sj \<and>
          held sj = (Val W_init, Val b_init, ?M)"
      using sj h3 by simp
  qed
  have grads: "\<exists>sj sj' logits l c m'.
          inner_loop env lbls x j s3 = Inr sj \<and>
          inner_loop env lbls x (Suc j) s3 = Inr sj' \<and>
          forward env sj x = Inr logits \<and> lossfn env sj x logits lbls = Inr l \<and>
          map_attr p_grad (W_task sj') = Val (Some (wrt_W l)) \<and>
          map_attr p_grad (b_task sj') = Val (Some (wrt_b l)) \<and>
          model_task sj' = Val m' \<and>
          0 < c \<and> c \<le> 1 \<and> (clip_val s \<le> 0 \<longrightarrow> c = 1) \<and>
          length (params m') = length (params (model_shared s)) \<and>
          (\<forall>i<length (params (model_shared s)).
              p_requires_grad (params (model_shared s) ! i) \<longrightarrow>
              (\<exists>g. wrt_task l i = Some g \<and>
                   p_grad (params m' ! i) = Some (map (\<lambda>v. c * v) g)))"
    if j: "j < nat (n_inner s)" for j
  proof -
    have "j \<le> nat (n_inner s3)" "Suc j \<le> nat (n_inner s3)" using j su(3) by simp_all
    then obtain sj sj' where sj: "inner_loop env lbls x j s3 = Inr sj"
      and sj': "inner_loop env lbls x (Suc j) s3 = Inr sj'"
      using inner_loop_prefix[OF loop] by blast
    have step: "inner_step env lbls x sj = Inr sj'"
      using sj' unfolding inner_loop_Suc sj by simp
    note sv = inner_loop_values[OF sj]
    have cv: "clip_val sj = clip_val s" using sv su by (simp add: same_values_def)
    from inner_step_Inr[OF step] obtain logits l W b m m' c where
      fw: "forward env sj x = Inr logits" and ls: "lossfn env sj x logits lbls = Inr l"
      and mt: "model_task sj = Val m"
      and W': "W_task sj' = Val (W\<lparr>p_grad := Some (wrt_W l)\<rparr>)"
      and b': "b_task sj' = Val (b\<lparr>p_grad := Some (wrt_b l)\<rparr>)"
      and m': "model_task sj' = Val m'"
      and c: "0 < c" "c \<le> 1" "clip_val sj \<le> 0 \<longrightarrow> c = 1"
      and len: "length (params m') = length (params m)"
      and per: "\<forall>i<length (params m).
          if p_requires_grad (params m ! i)
          then \<exists>g. wrt_task l i = Some g \<and> p_grad (params m' ! i) = Some (map (\<lambda>v. c * v) g)
          else p_grad (params m' ! i) = p_grad (params m ! i)"
      by blast
    from same_values_task[OF sv su(6)] mt
    have lm: "length (params m) = length (params (zero_grad (set_to_none env) (model_shared s)))"
      and fl: "map p_requires_grad (params m)
             = map p_requires_grad (params (zero_grad (set_to_none env) (model_shared s)))"
      by auto
    have lm': "length (params m) = length (params (model_shared s))"
      using lm by (simp add: zero_grad_def)
    have fl': "\<And>i. i < length (params (model_shared s)) \<Longrightarrow>
        p_requires_grad (params m ! i) = p_requires_grad (params (model_shared s) ! i)"
      using fl lm' unfolding zero_grad_flags by (metis nth_map)
    have per': "\<forall>i<length (params (model_shared s)).
              p_requires_grad (params (model_shared s) ! i) \<longrightarrow>
              (\<exists>g. wrt_task l i = Some g \<and>
                   p_grad (params m' ! i) = Some (map (\<lambda>v. c * v) g))"
      using per fl' lm' by auto
    have gW: "map_attr p_grad (W_task sj') = Val (Some (wrt_W l))"
      and gb: "map_attr p_grad (b_task sj') = Val (Some (wrt_b l))"
      by (simp_all add: W' b')
    show ?thesis
      apply (rule exI[of _ sj], rule exI[of _ sj'], rule exI[of _ logits], rule exI[of _ l],
          rule exI[of _ c], rule exI[of _ m'])
      using sj sj' fw ls gW gb m' c cv len lm' per' by simp
  qed
  have "held s4 = held s3" by (rule same_values_held[OF inner_loop_values[OF loop]])
  then have h': "held s' = (Val W_init, Val b_init, ?M)"
    using straight_through_held[OF final] h3 by simp
  have last: "\<exists>s4. inner_loop env lbls x (nat (n_inner s)) s3 = Inr s4 \<and>
            model_task s' = model_task s4"
    using loop su(3) straight_through_keeps(2)[OF final] by auto
  have fwd: "\<forall>q. forward env s' q =
         (case encoder env (map p_data (params (model_shared s))) (training (model_shared s)) q of
            Inl e \<Rightarrow> Inl e
          | Inr y \<Rightarrow> F_linear y W_init b_init)"
    by (intro allI forward_held[OF h'])
  show ?thesis
    apply (rule exI[of _ s3], rule exI[of _ W_init], rule exI[of _ b_init])
    using pre su(1) steps grads h' last fwd by blast
qed

theorem adapt_inner_loop_keeps_values_witness:
  "\<exists>s' m. adapt toy_env toy_model toy_labels toy_input None = Inr s' \<and>
         held s' = (Val [[2, 0], [0, 2]], Val [-1, -1], Val ([[0, 0]], True)) \<and>
         model_task s' = Val m \<and> map p_grad (params m) = [Some [1, 2]]"
proof -
  obtain s' where a: "adapt toy_env toy_model toy_labels toy_input None = Inr s'"
    using toy_adapt_returns by blast
  have facts: "nat (n_inner toy_model) = 2" "clip_val toy_model \<le> 0"
    "params (model_shared toy_model) = [\<lparr>p_data = [0, 0], p_grad = None, p_requires_grad = True\<rparr>]"
    "training (model_shared toy_model) = True"
    by (simp_all add: toy_defs)
  from adapt_inner_loop_keeps_values[OF a] obtain s3 W_init b_init s4 where
    gen: "generate_clf_weights toy_env toy_model toy_labels toy_input = Inr (W_init, b_init)"
    and grads: "\<forall>j < nat (n_inner toy_model). \<exists>sj sj' logits l c m'.
          inner_loop toy_env toy_labels toy_input j s3 = Inr sj \<and>
          inner_loop toy_env toy_labels toy_input (Suc j) s3 = Inr sj' \<and>
          forward toy_env sj toy_input = Inr logits \<and>
          lossfn toy_env sj toy_input logits toy_labels = Inr l \<and>
          map_attr p_grad (W_task sj') = Val (Some (wrt_W l)) \<and>
          map_attr p_grad (b_task sj') = Val (Some (wrt_b l)) \<and>
          model_task sj' = Val m' \<and>
          0 < c \<and> c \<le> 1 \<and> (clip_val toy_model \<le> 0 \<longrightarrow> c = 1) \<and>
          length (params m') = length (params (model_shared toy_model)) \<and>
          (\<forall>i<length (params (model_shared toy_model)).
              p_requires_grad (params (model_shared toy_model) ! i) \<longrightarrow>
              (\<exists>g. wrt_task l i = Some g \<and>
                   p_grad (params m' ! i) = Some (map (\<lambda>v. c * v) g)))"
    and h: "held s' = (Val W_init, Val b_init,
                Val (map p_data (params (model_shared toy_model)), training (model_shared toy_model)))"
    and l4: "inner_loop toy_env toy_labels toy_input (nat (n_inner toy_model)) s3 = Inr s4"
    and mt: "model_task s' = model_task s4"
    by (elim exE conjE) (rule that; assumption)
  have held: "held s' = (Val [[2, 0], [0, 2]], Val [-1, -1], Val ([[0, 0]], True))"
    using h gen by (simp add: toy_generate facts)
  have j1: "(1::nat) < nat (n_inner toy_model)" by (simp add: facts)
  from grads[rule_format, OF j1] obtain sj sj' logits l c m' where
    sj: "inner_loop toy_env toy_labels toy_input 1 s3 = Inr sj"
    and sj': "inner_loop toy_env toy_labels toy_input (Suc 1) s3 = Inr sj'"
    and fw: "forward toy_env sj toy_input = Inr logits"
    and l: "lossfn toy_env sj toy_input logits toy_labels = Inr l"
    and gW: "map_attr p_grad (W_task sj') = Val (Some (wrt_W l))"
    and gb: "map_attr p_grad (b_task sj') = Val (Some (wrt_b l))"
    and m': "model_task sj' = Val m'"
    and c0: "0 < c" "c \<le> 1" and c: "clip_val toy_model \<le> 0 \<longrightarrow> c = 1"
    and len: "length (params m') = length (params (model_shared toy_model))"
    and per: "\<forall>i<length (params (model_shared toy_model)).
              p_requires_grad (params (model_shared toy_model) ! i) \<longrightarrow>
              (\<exists>g. wrt_task l i = Some g \<and>
                   p_grad (params m' ! i) = Some (map (\<lambda>v. c * v) g))"
    by (elim exE conjE) (rule that; assumption)
  have "l = toy_loss" using l by (simp add: toy_env_def)
  then have g: "wrt_task l 0 = Some [1, 2]" by (simp add: toy_loss_def)
  have c1: "c = 1" using c facts by simp
  have "sj' = s4" using sj' l4 by (simp add: facts numeral_2_eq_2)
  then have ms: "model_task s' = Val m'" using mt m' by simp
  have "p_grad (params m' ! 0) = Some [1, 2]"
    using per g c1 by (simp add: facts)
  moreover have "length (params m') = 1" using len by (simp add: facts)
  ultimately have "map p_grad (params m') = [Some [1, 2]]"
    by (cases "params m'") auto
  then show ?thesis
    apply (intro exI[of _ s'] exI[of _ m'])
    using a held ms by simp
qed

text \<open>
  Claim C7. When \<^verbatim>\<open>adapt\<close> returns, \<^verbatim>\<open>W_task\<close> has as many rows and \<^verbatim>\<open>b_task\<close> as many
  entries as there are distinct labels in the support labels.
\<close>

theorem adapt_class_count:
  assumes "adapt env s lbls x name = Inr s'"
  shows "\<exists>W b. W_task s' = Val W \<and> b_task s' = Val b \<and>
           length (p_data W) = card (set lbls) \<and> length (p_data b) = card (set lbls)"
proof -
  obtain s3 W_init b_init s4 where
    pre: "adapt_setup env s lbls x name = Inr (s3, W_init, b_init)"
    and loop: "inner_loop env lbls x (nat (n_inner s3)) s3 = Inr s4"
    and final: "straight_through s4 W_init b_init = Inr s'"
    using assms by (auto simp: adapt_def split: sum.splits prod.splits)
  note su = adapt_setup_Inr[OF pre]
  note len = generate_clf_weights_lengths[OF su(1)]
  have "held s4 = held s3" by (rule same_values_held[OF inner_loop_values[OF loop]])
  then have "held s4 = (Val W_init, Val b_init,
      Val (map p_data (params (model_shared s)), training (model_shared s)))"
    by (simp add: held_def su zero_grad_data zero_grad_training)
  from straight_through_held[OF final this]
  have "map_attr p_data (W_task s') = Val W_init" "map_attr p_data (b_task s') = Val b_init"
    by (simp_all add: held_def)
  then obtain W b where "W_task s' = Val W" "p_data W = W_init" "b_task s' = Val b" "p_data b = b_init"
    by (cases "W_task s'"; cases "b_task s'") auto
  then show ?thesis using len by auto
qed

theorem adapt_class_count_witness:
  "\<exists>s' W b. adapt toy_env toy_model toy_labels toy_input None = Inr s' \<and>
         W_task s' = Val W \<and> b_task s' = Val b \<and>
         length (p_data W) = 2 \<and> length (p_data b) = 2"
proof -
  obtain s' where a: "adapt toy_env toy_model toy_labels toy_input None = Inr s'"
    using toy_adapt_returns by blast
  have "card (set toy_labels) = 2" by (simp add: toy_labels_def card_insert_if)
  then show ?thesis using adapt_class_count[OF a] a by auto
qed

subsection \<open>Gradient accumulation in \<^verbatim>\<open>backward\<close>\<close>

lemma backward_Inr:
  assumes bw: "backward s l = Inr s'" and mt: "model_task s = Val m"
    and flags: "map p_requires_grad (params m) = map p_requires_grad (params (model_shared s))"
  shows "s' = s\<lparr>model_shared := (model_shared s)\<lparr>params :=
           (let acc = map (\<lambda>i. if p_requires_grad (params (model_shared s) ! i)
                    then accumulate (n_outer s) (params (model_shared s) ! i)
                           (the (wrt_task l i), the (wrt_shared l i))
                    else params (model_shared s) ! i) [0..<length (params (model_shared s))]
            in if clip_val s > 0 then clip_grad_norm (clip_val s) acc else acc)\<rparr>\<rparr>"
    and "\<forall>i<length (params (model_shared s)). p_requires_grad (params (model_shared s) ! i) \<longrightarrow>
            wrt_task l i \<noteq> None \<and> wrt_shared l i \<noteq> None"
proof -
  let ?ps = "params (model_shared s)"
  obtain tg sg where tg: "autograd_grad (wrt_task l) (params m) = Inr tg"
    and sg: "autograd_grad (wrt_shared l) ?ps = Inr sg"
    and s': "s' = s\<lparr>model_shared := (model_shared s)\<lparr>params :=
           (let acc = zip_updateable (accumulate (n_outer s)) ?ps (zip tg sg)
            in if clip_val s > 0 then clip_grad_norm (clip_val s) acc else acc)\<rparr>\<rparr>"
    using bw mt by (auto simp: backward_def Let_def split: sum.splits)
  have idx: "updateable_idx (params m) = updateable_idx ?ps"
    by (rule updateable_idx_flags[OF flags])
  have len: "length (params m) = length ?ps" using flags by (rule map_eq_imp_length_eq)
  have z: "zip tg sg = map (\<lambda>i. (the (wrt_task l i), the (wrt_shared l i))) (updateable_idx ?ps)"
    using autograd_grad_Inr(1)[OF tg] autograd_grad_Inr(1)[OF sg] idx
    by (simp add: zip_map_map zip_same_conv_map)
  show "s' = s\<lparr>model_shared := (model_shared s)\<lparr>params :=
           (let acc = map (\<lambda>i. if p_requires_grad (?ps ! i)
                    then accumulate (n_outer s) (?ps ! i) (the (wrt_task l i), the (wrt_shared l i))
                    else ?ps ! i) [0..<length ?ps]
            in if clip_val s > 0 then clip_grad_norm (clip_val s) acc else acc)\<rparr>\<rparr>"
    unfolding s' z zip_updateable_idx ..
  have "\<forall>i<length (params m). p_requires_grad (params m ! i) \<longrightarrow> wrt_task l i \<noteq> None"
    by (rule autograd_grad_Inr(2)[OF tg])
  moreover have "\<And>i. i < length ?ps \<Longrightarrow> p_requires_grad (params m ! i) = p_requires_grad (?ps ! i)"
    using flags len by (metis nth_map)
  ultimately show "\<forall>i<length ?ps. p_requires_grad (?ps ! i) \<longrightarrow>
            wrt_task l i \<noteq> None \<and> wrt_shared l i \<noteq> None"
    using autograd_grad_Inr(2)[OF sg] len by auto
qed

lemma accumulate_fields:
  "p_data (accumulate no p g) = p_data p" "p_requires_grad (accumulate no p g) = p_requires_grad p"
  by (auto simp: accumulate_def split: prod.splits option.splits)

lemma accumulate_grad:
  "p_grad (accumulate no p (gt, gs)) =
     Some (case p_grad p of
             None \<Rightarrow> map2 (\<lambda>a b. (a + b) / real_of_int no) gs gt
           | Some old \<Rightarrow> map2 (+) old (map2 (\<lambda>a b. (a + b) / real_of_int no) gs gt))"
proof -
  have "vdiv (vadd gs gt) (real_of_int no) = map2 (\<lambda>a b. (a + b) / real_of_int no) gs gt"
    by (simp add: vdiv_def vadd_def map_zip_map2[symmetric] split_def)
  then show ?thesis by (simp add: accumulate_def vadd_def split: option.splits)
qed

lemma backward_single:
  assumes bw: "backward s l = Inr s'" and mt: "model_task s = Val m"
    and flags: "map p_requires_grad (params m) = map p_requires_grad (params (model_shared s))"
  shows "\<exists>acc. length acc = length (params (model_shared s)) \<and>
     s' = s\<lparr>model_shared := (model_shared s)\<lparr>params :=
            (if clip_val s > 0 then clip_grad_norm (clip_val s) acc else acc)\<rparr>\<rparr> \<and>
     (\<forall>i<length (params (model_shared s)).
        p_data (acc ! i) = p_data (params (model_shared s) ! i) \<and>
        p_requires_grad (acc ! i) = p_requires_grad (params (model_shared s) ! i) \<and>
        (if p_requires_grad (params (model_shared s) ! i)
         then \<exists>g_task g_shared. wrt_task l i = Some g_task \<and> wrt_shared l i = Some g_shared \<and>
                p_grad (acc ! i) =
                  Some (case p_grad (params (model_shared s) ! i) of
                          None \<Rightarrow> map2 (\<lambda>a b. (a + b) / real_of_int (n_outer s)) g_shared g_task
                        | Some old \<Rightarrow> map2 (+) old
                            (map2 (\<lambda>a b. (a + b) / real_of_int (n_outer s)) g_shared g_task))
         else p_grad (acc ! i) = p_grad (params (model_shared s) ! i)))"
proof -
  let ?ps = "params (model_shared s)"
  define acc where "acc = map (\<lambda>i. if p_requires_grad (?ps ! i)
                    then accumulate (n_outer s) (?ps ! i) (the (wrt_task l i), the (wrt_shared l i))
                    else ?ps ! i) [0..<length ?ps]"
  note b = backward_Inr[OF bw mt flags]
  have s': "s' = s\<lparr>model_shared := (model_shared s)\<lparr>params :=
            (if clip_val s > 0 then clip_grad_norm (clip_val s) acc else acc)\<rparr>\<rparr>"
    using b(1) by (simp add: acc_def Let_def)
  have per: "p_data (acc ! i) = p_data (?ps ! i) \<and>
        p_requires_grad (acc ! i) = p_requires_grad (?ps ! i) \<and>
        (if p_requires_grad (?ps ! i)
         then \<exists>g_task g_shared. wrt_task l i = Some g_task \<and> wrt_shared l i = Some g_shared \<and>
                p_grad (acc ! i) =
                  Some (case p_grad (?ps ! i) of
                          None \<Rightarrow> map2 (\<lambda>a b. (a + b) / real_of_int (n_outer s)) g_shared g_task
                        | Some old \<Rightarrow> map2 (+) old
                            (map2 (\<lambda>a b. (a + b) / real_of_int (n_outer s)) g_shared g_task))
         else p_grad (acc ! i) = p_grad (?ps ! i))" if i: "i < length ?ps" for i
  proof (cases "p_requires_grad (?ps ! i)")
    case True
    then obtain gt gs where g: "wrt_task l i = Some gt" "wrt_shared l i = Some gs"
      using b(2) i by auto
    have "acc ! i = accumulate (n_outer s) (?ps ! i) (gt, gs)"
      using i True g by (simp add: acc_def)
    then show ?thesis using True g by (simp add: accumulate_fields accumulate_grad)
  next
    case False
    then show ?thesis using i by (simp add: acc_def)
  qed
  have "length acc = length ?ps" by (simp add: acc_def)
  then show ?thesis using s' per by blast
qed

lemma backward_noclip_step:
  assumes bw: "backward s l = Inr s'" and mt: "model_task s = Val m"
    and flags: "map p_requires_grad (params m) = map p_requires_grad (params (model_shared s))"
    and noclip: "clip_val s \<le> 0"
  shows "model_task s' = Val m" "n_outer s' = n_outer s" "clip_val s' = clip_val s"
    "length (params (model_shared s')) = length (params (model_shared s))"
    "map p_requires_grad (params (model_shared s')) = map p_requires_grad (params (model_shared s))"
    "\<And>i. i < length (params (model_shared s)) \<Longrightarrow> p_requires_grad (params (model_shared s) ! i) \<Longrightarrow>
       \<exists>g_task g_shared. wrt_task l i = Some g_task \<and> wrt_shared l i = Some g_shared \<and>
         p_grad (params (model_shared s') ! i) =
           Some (case p_grad (params (model_shared s) ! i) of
                   None \<Rightarrow> map2 (\<lambda>a b. (a + b) / real_of_int (n_outer s)) g_shared g_task
                 | Some old \<Rightarrow> map2 (+) old
                     (map2 (\<lambda>a b. (a + b) / real_of_int (n_outer s)) g_shared g_task))"
proof -
  let ?ps = "params (model_shared s)"
  from backward_single[OF bw mt flags] noclip obtain acc where
    len: "length acc = length ?ps"
    and s': "s' = s\<lparr>model_shared := (model_shared s)\<lparr>params := acc\<rparr>\<rparr>"
    and per: "\<And>i. i < length ?ps \<Longrightarrow>
        p_data (acc ! i) = p_data (?ps ! i) \<and>
        p_requires_grad (acc ! i) = p_requires_grad (?ps ! i) \<and>
        (if p_requires_grad (?ps ! i)
         then \<exists>g_task g_shared. wrt_task l i = Some g_task \<and> wrt_shared l i = Some g_shared \<and>
                p_grad (acc ! i) =
                  Some (case p_grad (?ps ! i) of
                          None \<Rightarrow> map2 (\<lambda>a b. (a + b) / real_of_int (n_outer s)) g_shared g_task
                        | Some old \<Rightarrow> map2 (+) old
                            (map2 (\<lambda>a b. (a + b) / real_of_int (n_outer s)) g_shared g_task))
         else p_grad (acc ! i) = p_grad (?ps ! i))"
    by auto
  show "model_task s' = Val m" "n_outer s' = n_outer s" "clip_val s' = clip_val s"
    "length (params (model_shared s')) = length ?ps"
    using s' mt len by simp_all
  show "map p_requires_grad (params (model_shared s')) = map p_requires_grad ?ps"
    using per len by (simp add: s' list_eq_iff_nth_eq)
  fix i assume "i < length ?ps" "p_requires_grad (?ps ! i)"
  then show "\<exists>g_task g_shared. wrt_task l i = Some g_task \<and> wrt_shared l i = Some g_shared \<and>
         p_grad (params (model_shared s') ! i) =
           Some (case p_grad (?ps ! i) of
                   None \<Rightarrow> map2 (\<lambda>a b. (a + b) / real_of_int (n_outer s)) g_shared g_task
                 | Some old \<Rightarrow> map2 (+) old
                     (map2 (\<lambda>a b. (a + b) / real_of_int (n_outer s)) g_shared g_task))"
    using per[of i] by (simp add: s')
qed

lemma backward_calls_sum_from:
  assumes "backward_calls s ls = Inr s'" and "model_task s = Val m"
    and "map p_requires_grad (params m) = map p_requires_grad (params (model_shared s))"
    and "clip_val s \<le> 0"
    and "i < length (params (model_shared s))" and "p_requires_grad (params (model_shared s) ! i)"
    and "p_grad (params (model_shared s) ! i) = Some g0" and "length g0 = D"
    and "\<forall>l\<in>set ls. \<exists>gt gs. wrt_task l i = Some gt \<and> wrt_shared l i = Some gs \<and>
            length gt = D \<and> length gs = D"
  shows "\<exists>g. p_grad (params (model_shared s') ! i) = Some g \<and> length g = D \<and>
     (\<forall>j<D. g ! j = g0 ! j +
        (\<Sum>l\<leftarrow>ls. (the (wrt_shared l i) ! j + the (wrt_task l i) ! j) / real_of_int (n_outer s)))"
  using assms
proof (induction ls arbitrary: s g0)
  case Nil
  then show ?case by simp
next
  case (Cons l ls)
  from Cons.prems(1) obtain s1 where bw: "backward s l = Inr s1"
    and rest: "backward_calls s1 ls = Inr s'"
    by (auto split: sum.splits)
  note st = backward_noclip_step[OF bw Cons.prems(2) Cons.prems(3) Cons.prems(4)]
  obtain gt gs where g: "wrt_task l i = Some gt" "wrt_shared l i = Some gs"
    "length gt = D" "length gs = D"
    using Cons.prems(9) by auto
  define g1 where "g1 = map2 (+) g0 (map2 (\<lambda>a b. (a + b) / real_of_int (n_outer s)) gs gt)"
  have pg: "p_grad (params (model_shared s1) ! i) = Some g1"
    using st(6)[OF Cons.prems(5) Cons.prems(6)] g Cons.prems(7) by (simp add: g1_def)
  have l1: "length g1 = D" using g Cons.prems(8) by (simp add: g1_def)
  have n1: "\<And>j. j < D \<Longrightarrow> g1 ! j = g0 ! j + (gs ! j + gt ! j) / real_of_int (n_outer s)"
    using g Cons.prems(8) by (simp add: g1_def)
  have flags1: "map p_requires_grad (params m) = map p_requires_grad (params (model_shared s1))"
    using Cons.prems(3) st(5) by simp
  have i1: "i < length (params (model_shared s1))" using Cons.prems(5) st(4) by simp
  have r1: "p_requires_grad (params (model_shared s1) ! i)"
    using Cons.prems(5,6) st(4,5) by (metis nth_map)
  have c1: "clip_val s1 \<le> 0" using Cons.prems(4) st(3) by simp
  have sh: "\<forall>l\<in>set ls. \<exists>gt gs. wrt_task l i = Some gt \<and> wrt_shared l i = Some gs \<and>
            length gt = D \<and> length gs = D" using Cons.prems(9) by simp
  from Cons.IH[OF rest st(1) flags1 c1 i1 r1 pg l1 sh]
  obtain g where "p_grad (params (model_shared s') ! i) = Some g" "length g = D"
    "\<forall>j<D. g ! j = g1 ! j +
        (\<Sum>l\<leftarrow>ls. (the (wrt_shared l i) ! j + the (wrt_task l i) ! j) / real_of_int (n_outer s1))"
    by blast
  then show ?case using n1 g st(2) by (auto simp: add.assoc)
qed

lemma backward_calls_sum:
  assumes calls: "backward_calls s ls = Inr s'" and ne: "ls \<noteq> []" and mt: "model_task s = Val m"
    and flags: "map p_requires_grad (params m) = map p_requires_grad (params (model_shared s))"
    and noclip: "clip_val s \<le> 0"
    and i: "i < length (params (model_shared s))" and rq: "p_requires_grad (params (model_shared s) ! i)"
    and empty: "p_grad (params (model_shared s) ! i) = None"
    and shapes: "\<forall>l\<in>set ls. \<exists>gt gs. wrt_task l i = Some gt \<and> wrt_shared l i = Some gs \<and>
            length gt = D \<and> length gs = D"
  shows "\<exists>g. p_grad (params (model_shared s') ! i) = Some g \<and> length g = D \<and>
     (\<forall>j<D. g ! j =
        (\<Sum>l\<leftarrow>ls. (the (wrt_shared l i) ! j + the (wrt_task l i) ! j) / real_of_int (n_outer s)))"
proof -
  obtain l ls' where ls: "ls = l # ls'" using ne by (cases ls) auto
  from calls ls obtain s1 where bw: "backward s l = Inr s1"
    and rest: "backward_calls s1 ls' = Inr s'"
    by (auto split: sum.splits)
  note st = backward_noclip_step[OF bw mt flags noclip]
  obtain gt gs where g: "wrt_task l i = Some gt" "wrt_shared l i = Some gs"
    "length gt = D" "length gs = D"
    using shapes ls by auto
  define g1 where "g1 = map2 (\<lambda>a b. (a + b) / real_of_int (n_outer s)) gs gt"
  have pg: "p_grad (params (model_shared s1) ! i) = Some g1"
    using st(6)[OF i rq] g empty by (simp add: g1_def)
  have l1: "length g1 = D" using g by (simp add: g1_def)
  have n1: "\<And>j. j < D \<Longrightarrow> g1 ! j = (gs ! j + gt ! j) / real_of_int (n_outer s)"
    using g by (simp add: g1_def)
  have flags1: "map p_requires_grad (params m) = map p_requires_grad (params (model_shared s1))"
    using flags st(5) by simp
  have i1: "i < length (params (model_shared s1))" using i st(4) by simp
  have r1: "p_requires_grad (params (model_shared s1) ! i)"
    using i rq st(4,5) by (metis nth_map)
  have c1: "clip_val s1 \<le> 0" using noclip st(3) by simp
  have sh: "\<forall>l\<in>set ls'. \<exists>gt gs. wrt_task l i = Some gt \<and> wrt_shared l i = Some gs \<and>
            length gt = D \<and> length gs = D" using shapes ls by simp
  from backward_calls_sum_from[OF rest st(1) flags1 c1 i1 r1 pg l1 sh]
  obtain g' where "p_grad (params (model_shared s') ! i) = Some g'" "length g' = D"
    "\<forall>j<D. g' ! j = g1 ! j +
        (\<Sum>l\<leftarrow>ls'. (the (wrt_shared l i) ! j + the (wrt_task l i) ! j) / real_of_int (n_outer s1))"
    by blast
  then show ?thesis using n1 g st(2) ls by auto
qed

lemma backward_calls_sum_any:
  assumes calls: "backward_calls s ls = Inr s'" and ne: "ls \<noteq> []" and mt: "model_task s = Val m"
    and flags: "map p_requires_grad (params m) = map p_requires_grad (params (model_shared s))"
    and noclip: "clip_val s \<le> 0"
    and i: "i < length (params (model_shared s))" and rq: "p_requires_grad (params (model_shared s) ! i)"
    and buf: "case p_grad (params (model_shared s) ! i) of None \<Rightarrow> True | Some g0 \<Rightarrow> length g0 = D"
    and shapes: "\<forall>l\<in>set ls. \<exists>gt gs. wrt_task l i = Some gt \<and> wrt_shared l i = Some gs \<and>
            length gt = D \<and> length gs = D"
  shows "\<exists>g. p_grad (params (model_shared s') ! i) = Some g \<and> length g = D \<and>
     (\<forall>j<D. g ! j =
        (case p_grad (params (model_shared s) ! i) of None \<Rightarrow> 0 | Some g0 \<Rightarrow> g0 ! j) +
        (\<Sum>l\<leftarrow>ls. (the (wrt_shared l i) ! j + the (wrt_task l i) ! j) / real_of_int (n_outer s)))"
proof (cases "p_grad (params (model_shared s) ! i)")
  case None
  then show ?thesis
    using backward_calls_sum[OF calls ne mt flags noclip i rq None shapes] by simp
next
  case (Some g0)
  then have "length g0 = D" using buf by simp
  from backward_calls_sum_from[OF calls mt flags noclip i rq Some this shapes]
  show ?thesis using Some by simp
qed

lemma those_all_Some: "list_all (\<lambda>x. x \<noteq> None) xs \<Longrightarrow> those xs = Some (map the xs)"
  by (induction xs) auto

lemma autograd_grad_returns:
  assumes "\<forall>i<length ps. p_requires_grad (ps ! i) \<longrightarrow> wrt i \<noteq> None"
  shows "\<exists>gs. autograd_grad wrt ps = Inr gs"
proof -
  have "list_all (\<lambda>x. x \<noteq> None) (map wrt (filter (\<lambda>i. p_requires_grad (ps ! i)) [0..<length ps]))"
    using assms by (auto simp: list_all_iff)
  from those_all_Some[OF this] show ?thesis by (simp add: autograd_grad_def)
qed

lemma backward_returns:
  assumes "model_task s = Val m"
    and "\<forall>i<length (params m). p_requires_grad (params m ! i) \<longrightarrow> wrt_task l i \<noteq> None"
    and "\<forall>i<length (params (model_shared s)).
           p_requires_grad (params (model_shared s) ! i) \<longrightarrow> wrt_shared l i \<noteq> None"
  shows "\<exists>s'. backward s l = Inr s'"
proof -
  obtain tg where tg: "autograd_grad (wrt_task l) (params m) = Inr tg"
    using autograd_grad_returns[OF assms(2)] by blast
  obtain sg where sg: "autograd_grad (wrt_shared l) (params (model_shared s)) = Inr sg"
    using autograd_grad_returns[OF assms(3)] by blast
  show ?thesis by (simp add: backward_def assms(1) tg sg Let_def)
qed

text \<open>
  Claim C1. Let the task model have the \<^verbatim>\<open>requires_grad\<close> flags of the shared model, as
  after \<^verbatim>\<open>adapt\<close>, and let \<^verbatim>\<open>n_outer\<close> be non-zero. A call of \<^verbatim>\<open>backward\<close> that returns
  changes nothing but the stored gradients of the trainable shared parameters: the
  gradient of the parameter at position \<open>i\<close> becomes \<open>c\<close> times the pair sum
  \<open>(g_shared + g_task) / n_outer\<close> of the gradients at position \<open>i\<close>, when it was
  \<^verbatim>\<open>None\<close>, or \<open>c\<close> times the old gradient plus the pair sum; \<open>c\<close> is the clipping factor,
  the same for all parameters, positive and at most one, and one when \<^verbatim>\<open>clip_val\<close> is not
  positive. Without clipping, consecutive calls leave in a buffer what it held before
  them (nothing, or a tensor such as the zeros of \<^verbatim>\<open>zero_grad\<close>) plus the sum of the
  pair sums of the calls.
\<close>

theorem backward_accumulates:
  assumes mt: "model_task s = Val m"
    and flags: "map p_requires_grad (params m) = map p_requires_grad (params (model_shared s))"
    and no: "n_outer s \<noteq> 0"
  shows
   "(\<forall>l s'. backward s l = Inr s' \<longrightarrow>
       (\<exists>c. 0 < c \<and> c \<le> 1 \<and> (clip_val s \<le> 0 \<longrightarrow> c = 1) \<and>
          s' = s\<lparr>model_shared := model_shared s'\<rparr> \<and>
          training (model_shared s') = training (model_shared s) \<and>
          length (params (model_shared s')) = length (params (model_shared s)) \<and>
          (\<forall>i<length (params (model_shared s)).
             p_data (params (model_shared s') ! i) = p_data (params (model_shared s) ! i) \<and>
             p_requires_grad (params (model_shared s') ! i)
               = p_requires_grad (params (model_shared s) ! i) \<and>
             (if p_requires_grad (params (model_shared s) ! i)
              then \<exists>g_task g_shared.
                     wrt_task l i = Some g_task \<and> wrt_shared l i = Some g_shared \<and>
                     p_grad (params (model_shared s') ! i) =
                       Some (map (\<lambda>v. c * v)
                         (case p_grad (params (model_shared s) ! i) of
                            None \<Rightarrow> map2 (\<lambda>a b. (a + b) / real_of_int (n_outer s)) g_shared g_task
                          | Some old \<Rightarrow> map2 (+) old
                              (map2 (\<lambda>a b. (a + b) / real_of_int (n_outer s)) g_shared g_task)))
              else p_grad (params (model_shared s') ! i)
                     = p_grad (params (model_shared s) ! i))))) \<and>
    (\<forall>ls s' i D.
       backward_calls s ls = Inr s' \<and> ls \<noteq> [] \<and> clip_val s \<le> 0 \<and>
       i < length (params (model_shared s)) \<and> p_requires_grad (params (model_shared s) ! i) \<and>
       (case p_grad (params (model_shared s) ! i) of
          None \<Rightarrow> True | Some g0 \<Rightarrow> length g0 = D) \<and>
       (\<forall>l\<in>set ls. \<exists>gt gs. wrt_task l i = Some gt \<and> wrt_shared l i = Some gs \<and>
            length gt = D \<and> length gs = D) \<longrightarrow>
       (\<exists>g. p_grad (params (model_shared s') ! i) = Some g \<and> length g = D \<and>
          (\<forall>j<D. g ! j =
            (case p_grad (params (model_shared s) ! i) of None \<Rightarrow> 0 | Some g0 \<Rightarrow> g0 ! j) +
            (\<Sum>l\<leftarrow>ls. (the (wrt_shared l i) ! j + the (wrt_task l i) ! j)
                          / real_of_int (n_outer s)))))"
proof (intro conjI allI impI)
  fix l s' assume bw: "backward s l = Inr s'"
  let ?ps = "params (model_shared s)"
  from backward_single[OF bw mt flags] obtain acc where
    len: "length acc = length ?ps"
    and s': "s' = s\<lparr>model_shared := (model_shared s)\<lparr>params :=
            (if clip_val s > 0 then clip_grad_norm (clip_val s) acc else acc)\<rparr>\<rparr>"
    and per: "\<And>i. i < length ?ps \<Longrightarrow>
        p_data (acc ! i) = p_data (?ps ! i) \<and>
        p_requires_grad (acc ! i) = p_requires_grad (?ps ! i) \<and>
        (if p_requires_grad (?ps ! i)
         then \<exists>g_task g_shared. wrt_task l i = Some g_task \<and> wrt_shared l i = Some g_shared \<and>
                p_grad (acc ! i) =
                  Some (case p_grad (?ps ! i) of
                          None \<Rightarrow> map2 (\<lambda>a b. (a + b) / real_of_int (n_outer s)) g_shared g_task
                        | Some old \<Rightarrow> map2 (+) old
                            (map2 (\<lambda>a b. (a + b) / real_of_int (n_outer s)) g_shared g_task))
         else p_grad (acc ! i) = p_grad (?ps ! i))"
    by auto
  define c where "c = (if clip_val s > 0 then clip_coef (clip_val s) acc else 1)"
  have c: "0 < c" "c \<le> 1" "clip_val s \<le> 0 \<longrightarrow> c = 1"
    using clip_coef_range[of "clip_val s" acc] by (auto simp: c_def)
  have ps': "params (model_shared s') =
      map (\<lambda>p. if p_requires_grad p then p\<lparr>p_grad := map_option (map (\<lambda>v. c * v)) (p_grad p)\<rparr> else p) acc"
  proof (cases "clip_val s > 0")
    case True
    have "vscale c = map (\<lambda>v. c * v)" by (rule ext) (simp add: vscale_def)
    then show ?thesis using True by (simp add: s' clip_grad_norm_def c_def)
  next
    case False
    then have c1: "c = 1" by (simp add: c_def)
    have "(if p_requires_grad p then p\<lparr>p_grad := map_option (map (\<lambda>v. c * v)) (p_grad p)\<rparr> else p) = p"
      for p :: "vec tensor"
      unfolding c1 by (cases "p_grad p") simp_all
    then have "map (\<lambda>p. if p_requires_grad p
         then p\<lparr>p_grad := map_option (map (\<lambda>v. c * v)) (p_grad p)\<rparr> else p) acc = acc"
      by (simp add: map_idI)
    moreover have "params (model_shared s') = acc" using False by (simp add: s')
    ultimately show ?thesis by simp
  qed
  have "p_data (params (model_shared s') ! i) = p_data (?ps ! i) \<and>
        p_requires_grad (params (model_shared s') ! i) = p_requires_grad (?ps ! i) \<and>
        (if p_requires_grad (?ps ! i)
         then \<exists>g_task g_shared.
                wrt_task l i = Some g_task \<and> wrt_shared l i = Some g_shared \<and>
                p_grad (params (model_shared s') ! i) =
                  Some (map (\<lambda>v. c * v)
                    (case p_grad (?ps ! i) of
                       None \<Rightarrow> map2 (\<lambda>a b. (a + b) / real_of_int (n_outer s)) g_shared g_task
                     | Some old \<Rightarrow> map2 (+) old
                         (map2 (\<lambda>a b. (a + b) / real_of_int (n_outer s)) g_shared g_task)))
         else p_grad (params (model_shared s') ! i) = p_grad (?ps ! i))"
    if i: "i < length ?ps" for i
    using per[OF i] i len unfolding ps' by (cases "p_requires_grad (?ps ! i)") auto
  moreover have "s' = s\<lparr>model_shared := model_shared s'\<rparr>"
    "training (model_shared s') = training (model_shared s)"
    "length (params (model_shared s')) = length ?ps"
    using len ps' by (simp_all add: s' clip_grad_norm_def)
  ultimately show "\<exists>c. 0 < c \<and> c \<le> 1 \<and> (clip_val s \<le> 0 \<longrightarrow> c = 1) \<and>
          s' = s\<lparr>model_shared := model_shared s'\<rparr> \<and>
          training (model_shared s') = training (model_shared s) \<and>
          length (params (model_shared s')) = length ?ps \<and>
          (\<forall>i<length ?ps.
             p_data (params (model_shared s') ! i) = p_data (?ps ! i) \<and>
             p_requires_grad (params (model_shared s') ! i) = p_requires_grad (?ps ! i) \<and>
             (if p_requires_grad (?ps ! i)
              then \<exists>g_task g_shared.
                     wrt_task l i = Some g_task \<and> wrt_shared l i = Some g_shared \<and>
                     p_grad (params (model_shared s') ! i) =
                       Some (map (\<lambda>v. c * v)
                         (case p_grad (?ps ! i) of
                            None \<Rightarrow> map2 (\<lambda>a b. (a + b) / real_of_int (n_outer s)) g_shared g_task
                          | Some old \<Rightarrow> map2 (+) old
                              (map2 (\<lambda>a b. (a + b) / real_of_int (n_outer s)) g_shared g_task)))
              else p_grad (params (model_shared s') ! i) = p_grad (?ps ! i)))"
    using c by blast
next
  fix ls s' i D
  assume a: "backward_calls s ls = Inr s' \<and> ls \<noteq> [] \<and> clip_val s \<le> 0 \<and>
       i < length (params (model_shared s)) \<and> p_requires_grad (params (model_shared s) ! i) \<and>
       (case p_grad (params (model_shared s) ! i) of
          None \<Rightarrow> True | Some g0 \<Rightarrow> length g0 = D) \<and>
       (\<forall>l\<in>set ls. \<exists>gt gs. wrt_task l i = Some gt \<and> wrt_shared l i = Some gs \<and>
            length gt = D \<and> length gs = D)"
  then show "\<exists>g. p_grad (params (model_shared s') ! i) = Some g \<and> length g = D \<and>
          (\<forall>j<D. g ! j =
            (case p_grad (params (model_shared s) ! i) of None \<Rightarrow> 0 | Some g0 \<Rightarrow> g0 ! j) +
            (\<Sum>l\<leftarrow>ls. (the (wrt_shared l i) ! j + the (wrt_task l i) ! j)
                          / real_of_int (n_outer s)))"
    using backward_calls_sum_any[OF _ _ mt flags, of ls s' i D] by blast
qed

theorem backward_accumulates_witness:
  "\<exists>s s'. adapt toy_env toy_model toy_labels toy_input None = Inr s \<and>
         backward s toy_loss = Inr s' \<and>
         map p_grad (params (model_shared s')) = [Some [2, 3]]"
proof -
  obtain s where a: "adapt toy_env toy_model toy_labels toy_input None = Inr s"
    using toy_adapt_returns by blast
  note t = adapt_Inr_task[OF a]
  obtain m where h1: "model_task s = Val m"
    and h2: "map p_requires_grad (params m) = map p_requires_grad (params (model_shared s))"
    using t(4) by blast
  have facts: "clip_val s \<le> 0" "n_outer s = 2"
    "params (model_shared s) = [\<lparr>p_data = [0, 0], p_grad = None, p_requires_grad = True\<rparr>]"
    "wrt_task toy_loss 0 = Some [1, 2]" "wrt_shared toy_loss 0 = Some [3, 4]"
    by (simp_all add: t toy_defs)
  have h3: "n_outer s \<noteq> 0" by (simp add: facts)
  obtain s' where bw: "backward s toy_loss = Inr s'"
    using backward_returns[OF h1, of toy_loss] by (auto simp: toy_loss_def)
  from backward_accumulates[OF h1 h2 h3] bw obtain c where
    c: "clip_val s \<le> 0 \<longrightarrow> c = 1"
    and len: "length (params (model_shared s')) = length (params (model_shared s))"
    and per: "\<forall>i<length (params (model_shared s)).
             p_data (params (model_shared s') ! i) = p_data (params (model_shared s) ! i) \<and>
             p_requires_grad (params (model_shared s') ! i)
               = p_requires_grad (params (model_shared s) ! i) \<and>
             (if p_requires_grad (params (model_shared s) ! i)
              then \<exists>g_task g_shared.
                     wrt_task toy_loss i = Some g_task \<and> wrt_shared toy_loss i = Some g_shared \<and>
                     p_grad (params (model_shared s') ! i) =
                       Some (map (\<lambda>v. c * v)
                         (case p_grad (params (model_shared s) ! i) of
                            None \<Rightarrow> map2 (\<lambda>a b. (a + b) / real_of_int (n_outer s)) g_shared g_task
                          | Some old \<Rightarrow> map2 (+) old
                              (map2 (\<lambda>a b. (a + b) / real_of_int (n_outer s)) g_shared g_task)))
              else p_grad (params (model_shared s') ! i)
                     = p_grad (params (model_shared s) ! i))"
    by blast
  have c1: "c = 1" using c facts(1) by simp
  have "p_grad (params (model_shared s') ! 0) = Some [2, 3]"
    using per c1 by (simp add: facts)
  moreover have "length (params (model_shared s')) = 1" using len by (simp add: facts)
  ultimately have "map p_grad (params (model_shared s')) = [Some [2, 3]]"
    by (cases "params (model_shared s')") auto
  then show ?thesis using a bw by (intro exI[of _ s] exI[of _ s']) simp
qed

end
